theory Spec2Isabelle
  imports
    Main
    "HOL-Library.Word"
    "HOL-Library.Char_ord"
    "HOL-Library.List_Lexorder"
    "HOL-Library.Sublist"
    "HOL-Library.Multiset"
    "HOL-Library.AList"
begin

section \<open>The migration engine of \<open>cmd/app/cli/root.go\<close> and the user use case\<close>

text \<open>
  Go's \<open>error\<close> values are modelled by their message; a \<open>nil\<close> error is \<open>None\<close>.
  Strings are byte lists, and \<open><\<close> on them is the lexicographic order on bytes,
  which is how Go compares strings.
\<close>

type_synonym error = string

subsection \<open>String helpers of the Go library used by the source\<close>

text \<open>\<open>strings.TrimSuffix\<close>.\<close>

definition TrimSuffix :: "string \<Rightarrow> string \<Rightarrow> string" where
  "TrimSuffix s suf = (if suffix suf s then take (length s - length suf) s else s)"

text \<open>\<open>strings.Split(s, sep)\<close> for a separator of one byte: every occurrence splits.\<close>

fun Split :: "string \<Rightarrow> char \<Rightarrow> string list" where
  "Split [] sep = [[]]"
| "Split (c # cs) sep =
     (if c = sep then [] # Split cs sep
      else (case Split cs sep of [] \<Rightarrow> [[c]] | p # ps \<Rightarrow> (c # p) # ps))"

text \<open>\<open>strings.SplitN(s, sep, 2)\<close> for a separator of one byte: split at the first
  occurrence only, the whole string when there is none.\<close>

definition SplitN2 :: "string \<Rightarrow> char \<Rightarrow> string list" where
  "SplitN2 s sep =
     (if sep \<in> set s
      then [takeWhile (\<lambda>c. c \<noteq> sep) s, tl (dropWhile (\<lambda>c. c \<noteq> sep) s)]
      else [s])"

text \<open>\<open>filepath.Base\<close> on a slash-separated path.\<close>

definition Base :: "string \<Rightarrow> string" where
  "Base path =
     (if path = [] then ''.''
      else let p = dropWhile (\<lambda>c. c = CHR ''/'') (rev path)
           in if p = [] then ''/'' else rev (takeWhile (\<lambda>c. c \<noteq> CHR ''/'') p))"

subsection \<open>\<open>sort.Slice\<close>\<close>

text \<open>
  \<open>sort.Slice\<close> is not a stable sort by contract. For a slice of at most twelve elements
  the Go runtime runs an insertion sort: element \<open>i\<close> is swapped towards the front while
  \<open>less(data[j], data[j-1])\<close> holds; \<open>sift\<close> does that for one element and receives
  the sorted front part in reverse. For a longer slice the runtime runs its
  pattern-defeating quicksort, which is not among the sources: it is the parameter
  \<open>pdq\<close>.
\<close>

fun sift :: "('a \<Rightarrow> 'a \<Rightarrow> bool) \<Rightarrow> 'a \<Rightarrow> 'a list \<Rightarrow> 'a list" where
  "sift lt x [] = [x]"
| "sift lt x (y # rs) = (if lt x y then y # sift lt x rs else x # y # rs)"

definition insertionSort :: "('a \<Rightarrow> 'a \<Rightarrow> bool) \<Rightarrow> 'a list \<Rightarrow> 'a list" where
  "insertionSort lt xs = rev (foldl (\<lambda>rs x. sift lt x rs) [] xs)"

definition sort_Slice :: "(('a \<Rightarrow> 'a \<Rightarrow> bool) \<Rightarrow> 'a list \<Rightarrow> 'a list)
    \<Rightarrow> ('a \<Rightarrow> 'a \<Rightarrow> bool) \<Rightarrow> 'a list \<Rightarrow> 'a list" where
  "sort_Slice pdq lt xs = (if length xs \<le> 12 then insertionSort lt xs else pdq lt xs)"

subsection \<open>Migrations and their discovery\<close>

record Migration =
  Version :: string
  Name :: string
  UpSQL :: string
  DownSQL :: string

text \<open>
  What \<open>loadMigrations\<close> sees of the file system: the result of \<open>filepath.Glob\<close> on
  \<open>migrationsDir/*.sql\<close> and the result of \<open>os.ReadFile\<close> on a path.
\<close>

record directory =
  Glob :: "error + string list"
  ReadFile :: "string \<Rightarrow> error + string"

text \<open>
  The map \<open>migrationFiles\<close> is an association list from key to the pair \<open>(up, down)\<close>.
  A lookup of a missing key gives Go's zero value.
\<close>

type_synonym migrationFiles = "(string \<times> (string \<times> string)) list"

definition lookup_files :: "migrationFiles \<Rightarrow> string \<Rightarrow> string \<times> string" where
  "lookup_files mf key = (case map_of mf key of None \<Rightarrow> ('''', '''') | Some fd \<Rightarrow> fd)"

text \<open>
  The body of the first loop of \<open>loadMigrations\<close>, for one of the files that \<open>Glob\<close>
  returned: \<open>Inr\<close> the map after the iteration (unchanged where the source says
  \<open>continue\<close>), \<open>Inl\<close> the error the function returns with.
\<close>

definition group_file :: "(string \<Rightarrow> error + string) \<Rightarrow> string \<Rightarrow> migrationFiles
    \<Rightarrow> error + migrationFiles" where
  "group_file rd file mf =
     (let filename = Base file;
          parts = Split (TrimSuffix filename ''.sql'') CHR ''.''
      in if length parts \<noteq> 2 then Inr mf
         else
           let baseName = parts ! 0;
               direction = parts ! 1;
               baseParts = SplitN2 baseName CHR ''_''
           in if length baseParts \<noteq> 2 then Inr mf
              else
                let version = baseParts ! 0;
                    name = baseParts ! 1;
                    key = version @ ''_'' @ name;
                    mf1 = (if map_of mf key = None
                           then AList.update key ([], []) mf else mf)
                in case rd file of
                     Inl err \<Rightarrow>
                       Inl (''failed to read migration file '' @ file @ '': '' @ err)
                   | Inr content \<Rightarrow>
                       let fileData = lookup_files mf1 key;
                           fileData1 =
                             (if direction = ''up'' then (content, snd fileData)
                              else if direction = ''down'' then (fst fileData, content)
                              else fileData)
                       in Inr (AList.update key fileData1 mf1))"

fun group_files :: "(string \<Rightarrow> error + string) \<Rightarrow> string list \<Rightarrow> migrationFiles
    \<Rightarrow> error + migrationFiles" where
  "group_files rd [] mf = Inr mf"
| "group_files rd (file # files) mf =
     (case group_file rd file mf of
        Inl err \<Rightarrow> Inl err
      | Inr mf1 \<Rightarrow> group_files rd files mf1)"

text \<open>The body of the second loop: one map entry becomes one \<open>Migration\<close>.\<close>

definition to_Migration :: "string \<times> (string \<times> string) \<Rightarrow> Migration" where
  "to_Migration e =
     (let parts = SplitN2 (fst e) CHR ''_''
      in \<lparr>Version = parts ! 0, Name = parts ! 1, UpSQL = fst (snd e), DownSQL = snd (snd e)\<rparr>)"

text \<open>
  What the program leaves to the Go runtime: the order in which a \<open>range\<close> goes over a
  map, a rearrangement of the entries that the runtime chooses afresh each time, and the
  sort of slices of more than twelve elements.
\<close>

record go_runtime =
  range_order :: "migrationFiles \<Rightarrow> migrationFiles"
  pdqsort :: "(Migration \<Rightarrow> Migration \<Rightarrow> bool) \<Rightarrow> Migration list \<Rightarrow> Migration list"

text \<open>\<open>loadMigrations\<close>.\<close>

definition loadMigrations :: "go_runtime \<Rightarrow> directory \<Rightarrow> error + Migration list" where
  "loadMigrations rt dir =
     (case Glob dir of
        Inl err \<Rightarrow> Inl (''failed to read migrations directory: '' @ err)
      | Inr files \<Rightarrow>
          (case group_files (ReadFile dir) files [] of
             Inl err \<Rightarrow> Inl err
           | Inr mf \<Rightarrow>
               Inr (sort_Slice (pdqsort rt) (\<lambda>a b. Version a < Version b)
                      (map to_Migration (range_order rt mf)))))"

subsection \<open>The database behind \<open>database/sql\<close>\<close>

text \<open>
  One row of the table \<open>migration_log\<close> that \<open>createMigrationLogTable\<close> declares:
  \<open>id\<close>, \<open>version\<close> (\<open>UNIQUE\<close>), \<open>name\<close>, \<open>applied_at\<close>, \<open>direction\<close>.
\<close>

record log_row =
  row_id :: nat
  row_version :: string
  row_name :: string
  row_applied_at :: nat
  row_direction :: string

text \<open>The calls that the program issues to the database, in the order issued.\<close>

datatype db_call =
    CallCreateTable
  | CallQuery
  | CallBegin
  | CallExec string
  | CallInsert string string string
  | CallDelete string
  | CallCommit
  | CallRollback

text \<open>The progress lines that the program prints, by their format and arguments
  (version, name).\<close>

datatype message =
    RunningUp
  | RunningDown
  | AlreadyApplied string string
  | Applying string string
  | Applied string string
  | RollingBack string string
  | RolledBack string string
  | AllCompleted
  | AllRolledBack

text \<open>
  The state that a run acts on: the committed contents of the database (the user schema,
  of a type \<open>'s\<close> left open, and the table \<open>migration_log\<close>), the table's
  \<open>AUTO_INCREMENT\<close> counter, the calls issued so far and the lines printed so far.
\<close>

record 's world =
  schema :: 's
  migration_log :: "log_row list"
  auto_increment :: nat
  calls :: "db_call list"
  stdout :: "message list"

text \<open>An open transaction: its own view of the contents, invisible until commit.\<close>

record 's tx =
  tx_schema :: 's
  tx_log :: "log_row list"

text \<open>
  The database server and the connection to it: \<open>run_sql\<close> is the effect of a migration
  body on the user schema or the error it is rejected with; \<open>fault n\<close> is the failure, if
  any, of the call issued when \<open>n\<close> calls have been issued before it (a lost connection,
  a lock timeout, ...); \<open>current_timestamp n\<close> is the server's clock during that call;
  \<open>rows_read n\<close> is, for a query, the number of rows after which \<open>rows.Next()\<close>
  returns false because of an error, \<open>None\<close> when it does so at the end of the rows.
  Migration bodies act on the user schema only, the table \<open>migration_log\<close> is written by
  \<open>recordMigration\<close> and \<open>removeMigration\<close> alone, and a transaction that is rolled back
  leaves no trace in the contents.
\<close>

record 's driver =
  run_sql :: "string \<Rightarrow> 's \<Rightarrow> error + 's"
  fault :: "nat \<Rightarrow> error option"
  current_timestamp :: "nat \<Rightarrow> nat"
  rows_read :: "nat \<Rightarrow> nat option"

definition issue :: "db_call \<Rightarrow> 's world \<Rightarrow> 's world" where
  "issue c w = w\<lparr>calls := calls w @ [c]\<rparr>"

definition Printf :: "message \<Rightarrow> 's world \<Rightarrow> 's world" where
  "Printf msg w = w\<lparr>stdout := stdout w @ [msg]\<rparr>"

text \<open>\<open>db.Begin()\<close>.\<close>

definition db_Begin :: "'s driver \<Rightarrow> 's world \<Rightarrow> (error + 's tx) \<times> 's world" where
  "db_Begin d w =
     (case fault d (length (calls w)) of
        Some err \<Rightarrow> (Inl err, issue CallBegin w)
      | None \<Rightarrow> (Inr \<lparr>tx_schema = schema w, tx_log = migration_log w\<rparr>, issue CallBegin w))"

text \<open>\<open>tx.Exec(body)\<close> for a migration body.\<close>

definition tx_Exec :: "'s driver \<Rightarrow> string \<Rightarrow> 's tx \<Rightarrow> 's world
    \<Rightarrow> error option \<times> 's tx \<times> 's world" where
  "tx_Exec d body t w =
     (case fault d (length (calls w)) of
        Some err \<Rightarrow> (Some err, t, issue (CallExec body) w)
      | None \<Rightarrow>
          (case run_sql d body (tx_schema t) of
             Inl err \<Rightarrow> (Some err, t, issue (CallExec body) w)
           | Inr s \<Rightarrow> (None, t\<lparr>tx_schema := s\<rparr>, issue (CallExec body) w)))"

text \<open>\<open>tx.Commit()\<close>: the transaction's view becomes the committed contents, or the
  commit fails and nothing of it does.\<close>

definition tx_Commit :: "'s driver \<Rightarrow> 's tx \<Rightarrow> 's world \<Rightarrow> error option \<times> 's world" where
  "tx_Commit d t w =
     (case fault d (length (calls w)) of
        Some err \<Rightarrow> (Some err, issue CallCommit w)
      | None \<Rightarrow> (None, issue CallCommit (w\<lparr>schema := tx_schema t, migration_log := tx_log t\<rparr>)))"

text \<open>\<open>tx.Rollback()\<close>: the source ignores its result; the transaction's view is dropped.\<close>

definition tx_Rollback :: "'s tx \<Rightarrow> 's world \<Rightarrow> 's world" where
  "tx_Rollback t w = issue CallRollback w"

subsection \<open>Migration log table functions\<close>

text \<open>\<open>createMigrationLogTable\<close>: \<open>CREATE TABLE IF NOT EXISTS\<close> leaves an existing table
  as it is; a table not yet created is the empty list of rows.\<close>

definition createMigrationLogTable :: "'s driver \<Rightarrow> 's world \<Rightarrow> error option \<times> 's world" where
  "createMigrationLogTable d w = (fault d (length (calls w)), issue CallCreateTable w)"

text \<open>\<open>recordMigration\<close>: the \<open>INSERT\<close>. The column \<open>version\<close> is \<open>UNIQUE\<close>, so the
  statement is rejected when the transaction sees a row of that version.\<close>

definition recordMigration :: "'s driver \<Rightarrow> 's tx \<Rightarrow> string \<Rightarrow> string \<Rightarrow> string \<Rightarrow> 's world
    \<Rightarrow> error option \<times> 's tx \<times> 's world" where
  "recordMigration d t version name direction w =
     (let n = length (calls w);
          w1 = issue (CallInsert version name direction) w
      in case fault d n of
           Some err \<Rightarrow> (Some err, t, w1)
         | None \<Rightarrow>
             if version \<in> set (map row_version (tx_log t))
             then (Some (''Duplicate entry for key version: '' @ version), t, w1)
             else (None,
                   t\<lparr>tx_log := tx_log t @
                      [\<lparr>row_id = auto_increment w, row_version = version, row_name = name,
                        row_applied_at = current_timestamp d n, row_direction = direction\<rparr>]\<rparr>,
                   w1\<lparr>auto_increment := Suc (auto_increment w)\<rparr>))"

text \<open>\<open>removeMigration\<close>: \<open>DELETE FROM migration_log WHERE version = ?\<close>.\<close>

definition removeMigration :: "'s driver \<Rightarrow> 's tx \<Rightarrow> string \<Rightarrow> 's world
    \<Rightarrow> error option \<times> 's tx \<times> 's world" where
  "removeMigration d t version w =
     (case fault d (length (calls w)) of
        Some err \<Rightarrow> (Some err, t, issue (CallDelete version) w)
      | None \<Rightarrow>
          (None, t\<lparr>tx_log := filter (\<lambda>r. row_version r \<noteq> version) (tx_log t)\<rparr>,
           issue (CallDelete version) w))"

text \<open>The result set of
  \<open>SELECT version FROM migration_log WHERE direction = 'up' ORDER BY applied_at ASC\<close>,
  rows of equal \<open>applied_at\<close> in table order.\<close>

definition select_applied :: "log_row list \<Rightarrow> string list" where
  "select_applied rows =
     map row_version (sort_key row_applied_at (filter (\<lambda>r. row_direction r = ''up'') rows))"

text \<open>
  \<open>getAppliedMigrations\<close>. An error of \<open>db.Query\<close> or of \<open>rows.Scan\<close> is returned. The
  loop ends when \<open>rows.Next()\<close> returns false, at the end of the rows or on an error, and
  the function then returns what it has appended with a nil error: \<open>rows.Err()\<close> is not
  looked at.
\<close>

definition getAppliedMigrations :: "'s driver \<Rightarrow> 's world \<Rightarrow> (error + string list) \<times> 's world" where
  "getAppliedMigrations d w =
     (case fault d (length (calls w)) of
        Some err \<Rightarrow> (Inl err, issue CallQuery w)
      | None \<Rightarrow>
          (Inr (case rows_read d (length (calls w)) of
                  None \<Rightarrow> select_applied (migration_log w)
                | Some k \<Rightarrow> take k (select_applied (migration_log w))),
           issue CallQuery w))"

text \<open>\<open>contains\<close>.\<close>

fun contains :: "string list \<Rightarrow> string \<Rightarrow> bool" where
  "contains [] item = False"
| "contains (s # ss) item = (if s = item then True else contains ss item)"

subsection \<open>\<open>migrateUp\<close> and \<open>migrateDown\<close>\<close>

text \<open>The map \<open>appliedMap\<close> and an index expression \<open>appliedMap[v]\<close>, which is \<open>false\<close>
  for a missing key.\<close>

definition make_appliedMap :: "string list \<Rightarrow> (string \<rightharpoonup> bool)" where
  "make_appliedMap applied = foldl (\<lambda>am m. am(m \<mapsto> True)) Map.empty applied"

definition index_map :: "(string \<rightharpoonup> bool) \<Rightarrow> string \<Rightarrow> bool" where
  "index_map am v = (case am v of None \<Rightarrow> False | Some b \<Rightarrow> b)"

text \<open>The body of the loop of \<open>migrateUp\<close> for a migration that is not yet applied:
  the error that ends the run, or \<open>None\<close> when the loop goes on.\<close>

definition applyUp :: "'s driver \<Rightarrow> Migration \<Rightarrow> 's world \<Rightarrow> error option \<times> 's world" where
  "applyUp d migration w =
     (case db_Begin d (Printf (Applying (Version migration) (Name migration)) w) of
        (Inl err, w1) \<Rightarrow> (Some (''failed to begin transaction: '' @ err), w1)
      | (Inr t, w1) \<Rightarrow>
          (case tx_Exec d (UpSQL migration) t w1 of
             (Some err, t2, w2) \<Rightarrow>
               (Some (''failed to execute migration '' @ Version migration @ '': '' @ err),
                tx_Rollback t2 w2)
           | (None, t2, w2) \<Rightarrow>
               (case recordMigration d t2 (Version migration) (Name migration) ''up'' w2 of
                  (Some err, t3, w3) \<Rightarrow>
                    (Some (''failed to record migration '' @ Version migration @ '': '' @ err),
                     tx_Rollback t3 w3)
                | (None, t3, w3) \<Rightarrow>
                    (case tx_Commit d t3 w3 of
                       (Some err, w4) \<Rightarrow>
                         (Some (''failed to commit transaction: '' @ err), w4)
                     | (None, w4) \<Rightarrow>
                         (None, Printf (Applied (Version migration) (Name migration)) w4)))))"

fun migrateUp_loop :: "'s driver \<Rightarrow> (string \<rightharpoonup> bool) \<Rightarrow> Migration list \<Rightarrow> 's world
    \<Rightarrow> error option \<times> 's world" where
  "migrateUp_loop d appliedMap [] w = (None, w)"
| "migrateUp_loop d appliedMap (migration # rest) w =
     (if index_map appliedMap (Version migration)
      then migrateUp_loop d appliedMap rest
             (Printf (AlreadyApplied (Version migration) (Name migration)) w)
      else (case applyUp d migration w of
              (Some err, w1) \<Rightarrow> (Some err, w1)
            | (None, w1) \<Rightarrow> migrateUp_loop d appliedMap rest w1))"

definition migrateUp :: "'s driver \<Rightarrow> Migration list \<Rightarrow> 's world \<Rightarrow> error option \<times> 's world" where
  "migrateUp d migrations w =
     (case getAppliedMigrations d w of
        (Inl err, w1) \<Rightarrow> (Some (''failed to get applied migrations: '' @ err), w1)
      | (Inr applied, w1) \<Rightarrow> migrateUp_loop d (make_appliedMap applied) migrations w1)"

text \<open>The body of the loop of \<open>migrateDown\<close> for a migration that is applied.\<close>

definition applyDown :: "'s driver \<Rightarrow> Migration \<Rightarrow> 's world \<Rightarrow> error option \<times> 's world" where
  "applyDown d migration w =
     (case db_Begin d (Printf (RollingBack (Version migration) (Name migration)) w) of
        (Inl err, w1) \<Rightarrow> (Some (''failed to begin transaction: '' @ err), w1)
      | (Inr t, w1) \<Rightarrow>
          (case tx_Exec d (DownSQL migration) t w1 of
             (Some err, t2, w2) \<Rightarrow>
               (Some (''failed to rollback migration '' @ Version migration @ '': '' @ err),
                tx_Rollback t2 w2)
           | (None, t2, w2) \<Rightarrow>
               (case removeMigration d t2 (Version migration) w2 of
                  (Some err, t3, w3) \<Rightarrow>
                    (Some (''failed to remove migration record '' @ Version migration
                             @ '': '' @ err),
                     tx_Rollback t3 w3)
                | (None, t3, w3) \<Rightarrow>
                    (case tx_Commit d t3 w3 of
                       (Some err, w4) \<Rightarrow>
                         (Some (''failed to commit transaction: '' @ err), w4)
                     | (None, w4) \<Rightarrow>
                         (None, Printf (RolledBack (Version migration) (Name migration)) w4)))))"

fun migrateDown_loop :: "'s driver \<Rightarrow> string list \<Rightarrow> Migration list \<Rightarrow> 's world
    \<Rightarrow> error option \<times> 's world" where
  "migrateDown_loop d applied [] w = (None, w)"
| "migrateDown_loop d applied (migration # rest) w =
     (if \<not> contains applied (Version migration)
      then migrateDown_loop d applied rest w
      else (case applyDown d migration w of
              (Some err, w1) \<Rightarrow> (Some err, w1)
            | (None, w1) \<Rightarrow> migrateDown_loop d applied rest w1))"

definition migrateDown :: "go_runtime \<Rightarrow> 's driver \<Rightarrow> Migration list \<Rightarrow> 's world
    \<Rightarrow> error option \<times> 's world" where
  "migrateDown rt d migrations w =
     (case getAppliedMigrations d w of
        (Inl err, w1) \<Rightarrow> (Some (''failed to get applied migrations: '' @ err), w1)
      | (Inr applied, w1) \<Rightarrow>
          migrateDown_loop d applied
            (sort_Slice (pdqsort rt) (\<lambda>a b. Version a > Version b) migrations) w1)"

subsection \<open>\<open>runMigrations\<close>\<close>

text \<open>
  One invocation of the command line: the configuration and the connection it obtains
  (or the error met on the way), the migrations directory as it is then, and the choices
  of the runtime. \<open>log.Fatalf\<close> ends the process: the fatal message is the result.
\<close>

record 's invocation =
  LoadConfig :: "error option"
  NewMySQLDB :: "error + 's driver"
  migrations_dir :: directory
  runtime :: go_runtime

definition runMigrations :: "'s invocation \<Rightarrow> string \<Rightarrow> 's world \<Rightarrow> error option \<times> 's world" where
  "runMigrations iv direction w =
     (case LoadConfig iv of
        Some err \<Rightarrow> (Some (''Failed to load config: '' @ err), w)
      | None \<Rightarrow>
          (case NewMySQLDB iv of
             Inl err \<Rightarrow> (Some (''Failed to connect to database: '' @ err), w)
           | Inr db \<Rightarrow>
               (case createMigrationLogTable db w of
                  (Some err, w1) \<Rightarrow>
                    (Some (''Failed to create migration log table: '' @ err), w1)
                | (None, w1) \<Rightarrow>
                    (case loadMigrations (runtime iv) (migrations_dir iv) of
                       Inl err \<Rightarrow> (Some (''Failed to load migrations: '' @ err), w1)
                     | Inr migrations \<Rightarrow>
                         if direction = ''up''
                         then (case migrateUp db migrations (Printf RunningUp w1) of
                                 (Some err, w2) \<Rightarrow> (Some (''Migration failed: '' @ err), w2)
                               | (None, w2) \<Rightarrow> (None, Printf AllCompleted w2))
                         else (case migrateDown (runtime iv) db migrations (Printf RunningDown w1) of
                                 (Some err, w2) \<Rightarrow>
                                   (Some (''Migration rollback failed: '' @ err), w2)
                               | (None, w2) \<Rightarrow> (None, Printf AllRolledBack w2))))))"

text \<open>A sequence of invocations, each with its direction, one after the other on the
  same database.\<close>

fun run_sequence :: "('s invocation \<times> string) list \<Rightarrow> 's world \<Rightarrow> 's world" where
  "run_sequence [] w = w"
| "run_sequence (r # rs) w = run_sequence rs (snd (runMigrations (fst r) (snd r) w))"

subsection \<open>Notions used to state the properties\<close>

text \<open>What a ledger row records, apart from the two columns the server fills in.\<close>

definition log_entry :: "log_row \<Rightarrow> string \<times> string \<times> string" where
  "log_entry r = (row_version r, row_name r, row_direction r)"

definition up_entry :: "Migration \<Rightarrow> string \<times> string \<times> string" where
  "up_entry m = (Version m, Name m, ''up'')"

text \<open>The rows of the ledger for one version.\<close>

definition rows_of :: "string \<Rightarrow> log_row list \<Rightarrow> log_row list" where
  "rows_of v rows = filter (\<lambda>r. row_version r = v) rows"

text \<open>Running a list of bodies on a schema, one after the other, up to the first that
  is rejected.\<close>

fun run_all_sql :: "'s driver \<Rightarrow> string list \<Rightarrow> 's \<Rightarrow> error + 's" where
  "run_all_sql d [] s = Inr s"
| "run_all_sql d (body # bodies) s =
     (case run_sql d body s of Inl err \<Rightarrow> Inl err | Inr s1 \<Rightarrow> run_all_sql d bodies s1)"

text \<open>The plans as the specification words them: for \<open>up\<close>, the migrations whose version
  is not in \<open>applied\<close>; for \<open>down\<close>, those whose version is.\<close>

definition up_plan :: "string list \<Rightarrow> Migration list \<Rightarrow> Migration list" where
  "up_plan applied ms = filter (\<lambda>m. Version m \<notin> set applied) ms"

definition down_selected :: "string list \<Rightarrow> Migration list \<Rightarrow> Migration list" where
  "down_selected applied ms = filter (\<lambda>m. Version m \<in> set applied) ms"

text \<open>What can be observed of a run: the bodies it sent to the database, and the
  migrations it announced or reported, each by version and name.\<close>

definition exec_bodies :: "db_call list \<Rightarrow> string list" where
  "exec_bodies cs = concat (map (\<lambda>c. case c of CallExec b \<Rightarrow> [b] | _ \<Rightarrow> []) cs)"

definition inserted :: "db_call list \<Rightarrow> string list" where
  "inserted cs = concat (map (\<lambda>c. case c of CallInsert v n dr \<Rightarrow> [v] | _ \<Rightarrow> []) cs)"

definition announced_up :: "message list \<Rightarrow> (string \<times> string) list" where
  "announced_up out = concat (map (\<lambda>x. case x of Applying v n \<Rightarrow> [(v, n)] | _ \<Rightarrow> []) out)"

definition reported_applied :: "message list \<Rightarrow> (string \<times> string) list" where
  "reported_applied out =
     concat (map (\<lambda>x. case x of AlreadyApplied v n \<Rightarrow> [(v, n)] | _ \<Rightarrow> []) out)"

definition announced_down :: "message list \<Rightarrow> (string \<times> string) list" where
  "announced_down out =
     concat (map (\<lambda>x. case x of RollingBack v n \<Rightarrow> [(v, n)] | _ \<Rightarrow> []) out)"

definition ident :: "Migration \<Rightarrow> string \<times> string" where
  "ident m = (Version m, Name m)"

text \<open>What a run of \<open>migrateUp\<close> over \<open>ms\<close> prints and sends when nothing fails, and the
  same for the loop of \<open>migrateDown\<close>.\<close>

definition up_report :: "string list \<Rightarrow> Migration list \<Rightarrow> message list" where
  "up_report applied ms =
     concat (map (\<lambda>m. if Version m \<in> set applied
                       then [AlreadyApplied (Version m) (Name m)]
                       else [Applying (Version m) (Name m), Applied (Version m) (Name m)]) ms)"

definition up_calls :: "Migration \<Rightarrow> db_call list" where
  "up_calls m = [CallBegin, CallExec (UpSQL m), CallInsert (Version m) (Name m) ''up'', CallCommit]"

definition down_report :: "Migration \<Rightarrow> message list" where
  "down_report m = [RollingBack (Version m) (Name m), RolledBack (Version m) (Name m)]"

definition down_calls :: "Migration \<Rightarrow> db_call list" where
  "down_calls m = [CallBegin, CallExec (DownSQL m), CallDelete (Version m), CallCommit]"

subsection \<open>A sample database and sample migrations\<close>

text \<open>A server whose schema is the list of statements it has accepted; it rejects the
  body \<open>bad\<close>, no call suffers a fault and every query is read to the end. With
  \<open>cutting_driver\<close>, the connection breaks after the first row of a result set.\<close>

definition sample_driver :: "string list driver" where
  "sample_driver =
     \<lparr>run_sql = (\<lambda>body s. if body = ''bad'' then Inl ''syntax error'' else Inr (s @ [body])),
      fault = (\<lambda>n. None),
      current_timestamp = (\<lambda>n. n),
      rows_read = (\<lambda>n. None)\<rparr>"

definition cutting_driver :: "string list driver" where
  "cutting_driver =
     \<lparr>run_sql = (\<lambda>body s. if body = ''bad'' then Inl ''syntax error'' else Inr (s @ [body])),
      fault = (\<lambda>n. None),
      current_timestamp = (\<lambda>n. n),
      rows_read = (\<lambda>n. Some 1)\<rparr>"

text \<open>A runtime that ranges over a map in the order of insertion and one that ranges in
  the opposite order; for long slices both sort by insertion.\<close>

definition sample_runtime :: go_runtime where
  "sample_runtime = \<lparr>range_order = (\<lambda>mf. mf), pdqsort = insertionSort\<rparr>"

definition reversing_runtime :: go_runtime where
  "reversing_runtime = \<lparr>range_order = rev, pdqsort = insertionSort\<rparr>"

definition fresh_world :: "string list world" where
  "fresh_world = \<lparr>schema = [], migration_log = [], auto_increment = 1, calls = [], stdout = []\<rparr>"

definition sample_migration :: "string \<Rightarrow> string \<Rightarrow> string \<Rightarrow> Migration" where
  "sample_migration v n body = \<lparr>Version = v, Name = n, UpSQL = body, DownSQL = ''undo''\<rparr>"

text \<open>A migrations directory with an up and a down file for version \<open>1\<close> and an up file
  alone for version \<open>2\<close>; the content of a file is \<open>do\<close> and its path.\<close>

definition sample_directory :: directory where
  "sample_directory =
     \<lparr>Glob = Inr [''m/1_a.up.sql'', ''m/1_a.down.sql'', ''m/2_b.up.sql''],
      ReadFile = (\<lambda>p. Inr (''do '' @ p))\<rparr>"

text \<open>A database in which version \<open>1\<close> is recorded as applied.\<close>

definition one_applied_world :: "string list world" where
  "one_applied_world =
     \<lparr>schema = [''do m/1_a.up.sql''],
      migration_log = [\<lparr>row_id = 1, row_version = ''1'', row_name = ''a'', row_applied_at = 0,
                        row_direction = ''up''\<rparr>],
      auto_increment = 2, calls = [], stdout = []\<rparr>"

text \<open>The migrations that \<open>loadMigrations\<close> finds in the sample directory.\<close>

definition sample_migrations :: "Migration list" where
  "sample_migrations =
     [\<lparr>Version = ''1'', Name = ''a'', UpSQL = ''do m/1_a.up.sql'',
       DownSQL = ''do m/1_a.down.sql''\<rparr>,
      \<lparr>Version = ''2'', Name = ''b'', UpSQL = ''do m/2_b.up.sql'', DownSQL = ''''\<rparr>]"

text \<open>An invocation on the sample directory and the sample database server.\<close>

definition sample_invocation :: "string list invocation" where
  "sample_invocation =
     \<lparr>LoadConfig = None, NewMySQLDB = Inr sample_driver,
      migrations_dir = sample_directory, runtime = sample_runtime\<rparr>"

text \<open>One migration applied to the empty database, rolled back, and applied again.\<close>

definition single_migration :: "Migration list" where
  "single_migration = [sample_migration ''1'' ''one'' ''CREATE a'']"

definition after_up :: "string list world" where
  "after_up = snd (migrateUp sample_driver single_migration fresh_world)"

definition after_down :: "string list world" where
  "after_down = snd (migrateDown sample_runtime sample_driver single_migration after_up)"

definition after_reapply :: "string list world" where
  "after_reapply = snd (migrateUp sample_driver single_migration after_down)"

text \<open>A database whose ledger holds rows of both directions, not in the order of their
  \<open>applied_at\<close>.\<close>

definition mixed_world :: "string list world" where
  "mixed_world =
     \<lparr>schema = [],
      migration_log =
        [\<lparr>row_id = 1, row_version = ''2'', row_name = ''b'', row_applied_at = 5,
          row_direction = ''up''\<rparr>,
         \<lparr>row_id = 2, row_version = ''1'', row_name = ''a'', row_applied_at = 3,
          row_direction = ''up''\<rparr>,
         \<lparr>row_id = 3, row_version = ''3'', row_name = ''c'', row_applied_at = 1,
          row_direction = ''down''\<rparr>],
      auto_increment = 4, calls = [], stdout = []\<rparr>"

text \<open>A directory that holds one file whose middle part is neither \<open>up\<close> nor \<open>down\<close>,
  readable in the first case and not in the second.\<close>

definition backup_directory :: directory where
  "backup_directory = \<lparr>Glob = Inr [''m/001_init.bak.sql''], ReadFile = (\<lambda>p. Inr ''-- old'')\<rparr>"

definition locked_backup_directory :: directory where
  "locked_backup_directory =
     \<lparr>Glob = Inr [''m/001_init.bak.sql''], ReadFile = (\<lambda>p. Inl ''permission denied'')\<rparr>"

text \<open>A directory with two migrations of the same version and different names.\<close>

definition twin_directory :: directory where
  "twin_directory =
     \<lparr>Glob = Inr [''m/1_a.up.sql'', ''m/1_b.up.sql''], ReadFile = (\<lambda>p. Inr (''do '' @ p))\<rparr>"

definition twin_a :: Migration where
  "twin_a = \<lparr>Version = ''1'', Name = ''a'', UpSQL = ''do m/1_a.up.sql'', DownSQL = ''''\<rparr>"

definition twin_b :: Migration where
  "twin_b = \<lparr>Version = ''1'', Name = ''b'', UpSQL = ''do m/1_b.up.sql'', DownSQL = ''''\<rparr>"

subsection \<open>Decimal formatting\<close>

text \<open>The verb \<open>%d\<close> of \<open>fmt\<close> on an integer: an optional minus sign and the decimal
  digits, no padding.\<close>

definition digit :: "nat \<Rightarrow> char" where
  "digit n = char_of (48 + n)"

function decimal :: "nat \<Rightarrow> string" where
  "decimal n = (if n < 10 then [digit n] else decimal (n div 10) @ [digit (n mod 10)])"
  by pat_completeness auto
termination
  by (relation "measure id") auto

declare decimal.simps [simp del]

definition Itoa :: "int \<Rightarrow> string" where
  "Itoa i = (if i < 0 then CHR ''-'' # decimal (nat (- i)) else decimal (nat i))"

subsection \<open>The user use case\<close>

type_synonym int64 = "64 word"

text \<open>
  The declaration of \<open>entities.User\<close> is not among the sources: the fields are those
  that the repository scans and the use case reads and writes, times as numbers.
\<close>

record User =
  ID :: int64
  UserName :: string
  Email :: string
  CreatedAt :: nat
  UpdatedAt :: nat
  DeletedAt :: "nat option"

definition zero_User :: User where
  "zero_User = \<lparr>ID = 0, UserName = '''', Email = '''', CreatedAt = 0, UpdatedAt = 0,
                 DeletedAt = None\<rparr>"

text \<open>
  The interfaces \<open>UserRepositoryItf\<close> and \<open>CacheItf\<close>, over a state \<open>'b\<close> of whatever
  stands behind them. A Go result \<open>(*User, error)\<close> is a pair of options; a method that
  writes through a pointer argument returns the value written. Of \<open>CacheItf\<close>, the methods
  that the use case calls.
\<close>

record 'b UserRepositoryItf =
  Create :: "User \<Rightarrow> 'b \<Rightarrow> (error option \<times> User) \<times> 'b"
  GetByID :: "int64 \<Rightarrow> 'b \<Rightarrow> (User option \<times> error option) \<times> 'b"
  GetByEmail :: "string \<Rightarrow> 'b \<Rightarrow> (User option \<times> error option) \<times> 'b"
  Update :: "User \<Rightarrow> 'b \<Rightarrow> (error option \<times> User) \<times> 'b"
  Delete :: "int64 \<Rightarrow> 'b \<Rightarrow> error option \<times> 'b"

record 'b CacheItf =
  GetJSON :: "string \<Rightarrow> User \<Rightarrow> 'b \<Rightarrow> (error option \<times> User) \<times> 'b"
  SetJSON :: "string \<Rightarrow> User option \<Rightarrow> nat \<Rightarrow> 'b \<Rightarrow> error option \<times> 'b"
  CacheDelete :: "string \<Rightarrow> 'b \<Rightarrow> error option \<times> 'b"

record 'b userUseCase =
  userRepo :: "'b UserRepositoryItf"
  cache :: "'b CacheItf"

text \<open>\<open>strings.ToLower\<close> and \<open>strings.TrimSpace\<close>, which follow Unicode, are parameters.\<close>

record go_strings =
  ToLower :: "string \<Rightarrow> string"
  TrimSpace :: "string \<Rightarrow> string"

text \<open>\<open>time.Hour\<close>, in nanoseconds.\<close>

definition time_Hour :: nat where
  "time_Hour = 3600000000000"

text \<open>The calls that the use case makes on its two collaborators and the lines it
  prints, in order, next to the state behind the collaborators.\<close>

datatype access =
    RepoCreate User
  | RepoGetByID int64
  | RepoGetByEmail string
  | RepoUpdate User
  | RepoDelete int64
  | CacheGetJSON string
  | CacheSetJSON string
  | CacheDeleteKey string
  | Printed string

record 'b service =
  backend :: 'b
  accesses :: "access list"

definition access :: "access \<Rightarrow> ('b \<Rightarrow> 'r \<times> 'b) \<Rightarrow> 'b service \<Rightarrow> 'r \<times> 'b service" where
  "access a f s =
     (case f (backend s) of
        (r, b) \<Rightarrow> (r, \<lparr>backend = b, accesses = accesses s @ [a]\<rparr>))"

text \<open>A Go function either returns or panics (on a nil pointer dereference).\<close>

datatype 'a outcome = Returns 'a | Panics

definition CreateUser :: "go_strings \<Rightarrow> 'b userUseCase \<Rightarrow> string \<Rightarrow> string \<Rightarrow> 'b service
    \<Rightarrow> (User option \<times> error option) \<times> 'b service" where
  "CreateUser lib uc name email s =
     (case access (RepoGetByEmail email) (GetByEmail (userRepo uc) email) s of
        ((existingUser, Some err), s1) \<Rightarrow>
          ((None, Some (''failed to check email existence: '' @ err)), s1)
      | ((Some existingUser, None), s1) \<Rightarrow> ((None, Some ''email already exists''), s1)
      | ((None, None), s1) \<Rightarrow>
          (let user = zero_User\<lparr>UserName := TrimSpace lib name,
                                 Email := ToLower lib (TrimSpace lib email)\<rparr>
           in case access (RepoCreate user) (Create (userRepo uc) user) s1 of
                ((Some err, user1), s2) \<Rightarrow> ((None, Some err), s2)
              | ((None, user1), s2) \<Rightarrow> ((Some user1, None), s2)))"

definition GetUser :: "'b userUseCase \<Rightarrow> int64 \<Rightarrow> 'b service
    \<Rightarrow> (User option \<times> error option) \<times> 'b service" where
  "GetUser uc uid s =
     (if sint uid \<le> 0 then ((None, Some ''invalid user ID''), s)
      else
        let cacheKey = ''user:'' @ Itoa (sint uid)
        in case access (CacheGetJSON cacheKey) (GetJSON (cache uc) cacheKey zero_User) s of
             ((err, user), s1) \<Rightarrow>
               if err = None \<and> ID user \<noteq> 0
               then ((Some user, None),
                     s1\<lparr>accesses := accesses s1 @
                          [Printed (''get user id '' @ Itoa (sint uid) @ '' from redis'')]\<rparr>)
               else
                 (case access (RepoGetByID uid) (GetByID (userRepo uc) uid) s1 of
                    ((userPtr, Some err1), s2) \<Rightarrow> ((None, Some err1), s2)
                  | ((userPtr, None), s2) \<Rightarrow>
                      ((userPtr, None),
                       snd (access (CacheSetJSON cacheKey)
                              (SetJSON (cache uc) cacheKey userPtr time_Hour) s2))))"

text \<open>The part of \<open>UpdateUser\<close> after the user was fetched.\<close>

definition update_fetched :: "go_strings \<Rightarrow> 'b userUseCase \<Rightarrow> int64 \<Rightarrow> string \<Rightarrow> string
    \<Rightarrow> User \<Rightarrow> 'b service \<Rightarrow> (User option \<times> error option) \<times> 'b service" where
  "update_fetched lib uc uid name email user s =
     (let user1 = user\<lparr>UserName := TrimSpace lib name,
                       Email := ToLower lib (TrimSpace lib email)\<rparr>
      in case access (RepoUpdate user1) (Update (userRepo uc) user1) s of
           ((Some err, user2), s1) \<Rightarrow> ((None, Some err), s1)
         | ((None, user2), s1) \<Rightarrow>
             ((Some user2, None),
              snd (access (CacheDeleteKey (''user:'' @ Itoa (sint uid)))
                     (CacheDelete (cache uc) (''user:'' @ Itoa (sint uid))) s1)))"

definition UpdateUser :: "go_strings \<Rightarrow> 'b userUseCase \<Rightarrow> int64 \<Rightarrow> string \<Rightarrow> string
    \<Rightarrow> 'b service \<Rightarrow> (User option \<times> error option) outcome \<times> 'b service" where
  "UpdateUser lib uc uid name email s =
     (if sint uid \<le> 0 then (Returns (None, Some ''invalid user ID''), s)
      else
        case access (RepoGetByID uid) (GetByID (userRepo uc) uid) s of
          ((u, Some err), s1) \<Rightarrow> (Returns (None, Some err), s1)
        | ((None, None), s1) \<Rightarrow> (Panics, s1)
        | ((Some user, None), s1) \<Rightarrow>
            if Email user \<noteq> ToLower lib email
            then (case access (RepoGetByEmail email) (GetByEmail (userRepo uc) email) s1 of
                    ((e, Some err), s2) \<Rightarrow>
                      (Returns (None, Some (''failed to check email existence: '' @ err)), s2)
                  | ((existingUser, None), s2) \<Rightarrow>
                      if (case existingUser of None \<Rightarrow> False | Some eu \<Rightarrow> ID eu \<noteq> uid)
                      then (Returns (None, Some ''email already exists''), s2)
                      else (case update_fetched lib uc uid name email user s2 of
                              (r, s3) \<Rightarrow> (Returns r, s3)))
            else (case update_fetched lib uc uid name email user s1 of
                    (r, s3) \<Rightarrow> (Returns r, s3)))"

definition DeleteUser :: "'b userUseCase \<Rightarrow> int64 \<Rightarrow> 'b service \<Rightarrow> error option \<times> 'b service" where
  "DeleteUser uc uid s =
     (if sint uid \<le> 0 then (Some ''invalid user ID'', s)
      else
        case access (RepoDelete uid) (Delete (userRepo uc) uid) s of
          (Some err, s1) \<Rightarrow> (Some err, s1)
        | (None, s1) \<Rightarrow>
            (None,
             snd (access (CacheDeleteKey (''user:'' @ Itoa (sint uid)))
                    (CacheDelete (cache uc) (''user:'' @ Itoa (sint uid))) s1)))"

text \<open>Collaborators over no state at all, which find nothing and never fail.\<close>

definition sample_usecase :: "unit userUseCase" where
  "sample_usecase =
     \<lparr>userRepo =
        \<lparr>Create = (\<lambda>u b. ((None, u), b)),
         GetByID = (\<lambda>i b. ((None, Some ''user not found''), b)),
         GetByEmail = (\<lambda>e b. ((None, None), b)),
         Update = (\<lambda>u b. ((Some ''user not found'', u), b)),
         Delete = (\<lambda>i b. (Some ''user not found'', b))\<rparr>,
      cache =
        \<lparr>GetJSON = (\<lambda>k v b. ((None, v), b)),
         SetJSON = (\<lambda>k v t b. (None, b)),
         CacheDelete = (\<lambda>k b. (None, b))\<rparr>\<rparr>"

definition sample_strings :: go_strings where
  "sample_strings = \<lparr>ToLower = (\<lambda>s. s), TrimSpace = (\<lambda>s. s)\<rparr>"

subsection \<open>\<open>createMigration\<close>\<close>

text \<open>
  The wall clock that \<open>time.Now()\<close> reads, by its calendar fields, and the layout
  \<open>20060102150405\<close> of \<open>Format\<close>: each field through the library's \<open>appendInt\<close>, which
  writes a minus sign for a negative number and pads with zeros up to the width, writing
  more digits when the number has more.
\<close>

record clock =
  Year :: int
  Month :: int
  Day :: int
  Hour :: int
  Minute :: int
  Second :: int

definition zero_padded :: "nat \<Rightarrow> nat \<Rightarrow> string" where
  "zero_padded width u = replicate (width - length (decimal u)) CHR ''0'' @ decimal u"

definition appendInt :: "int \<Rightarrow> nat \<Rightarrow> string" where
  "appendInt x width = (if x < 0 then ''-'' else '''') @ zero_padded width (nat \<bar>x\<bar>)"

definition Format_20060102150405 :: "clock \<Rightarrow> string" where
  "Format_20060102150405 t =
     appendInt (Year t) 4 @ appendInt (Month t) 2 @ appendInt (Day t) 2 @
     appendInt (Hour t) 2 @ appendInt (Minute t) 2 @ appendInt (Second t) 2"

text \<open>
  The operating system as \<open>createMigration\<close> meets it: the clock, \<open>filepath.Join\<close>, and
  for \<open>os.MkdirAll\<close> and \<open>os.WriteFile\<close> the error, if any, that the call on a path
  ends with. The disk maps a path to the content of the file there.
\<close>

record os =
  Now :: clock
  Join :: "string \<Rightarrow> string \<Rightarrow> string"
  MkdirAll :: "string \<Rightarrow> error option"
  WriteFile :: "string \<Rightarrow> error option"

datatype scaffold_line = CreatedFiles | UpLine string | DownLine string

record disk =
  files :: "string \<rightharpoonup> string"
  directories :: "string set"
  printed :: "scaffold_line list"

definition up_file_name :: "string \<Rightarrow> string \<Rightarrow> string" where
  "up_file_name timestamp name = timestamp @ ''_'' @ name @ ''.up.sql''"

definition down_file_name :: "string \<Rightarrow> string \<Rightarrow> string" where
  "down_file_name timestamp name = timestamp @ ''_'' @ name @ ''.down.sql''"

definition upContent :: "string \<Rightarrow> string \<Rightarrow> string" where
  "upContent timestamp name =
     ''-- Migration: '' @ name @ [CHR 0x0A] @ ''-- Version: '' @ timestamp @ [CHR 0x0A] @
     ''-- Description: '' @ name @ [CHR 0x0A, CHR 0x0A]"

definition downContent :: "string \<Rightarrow> string \<Rightarrow> string" where
  "downContent timestamp name =
     ''-- Rollback: '' @ name @ [CHR 0x0A] @ ''-- Version: '' @ timestamp @ [CHR 0x0A, CHR 0x0A]"

text \<open>\<open>createMigration\<close>; \<open>log.Fatalf\<close> ends the process with the message.\<close>

definition createMigration :: "os \<Rightarrow> string \<Rightarrow> string \<Rightarrow> disk \<Rightarrow> error option \<times> disk" where
  "createMigration sys migrationsDir name dk =
     (let timestamp = Format_20060102150405 (Now sys);
          upFile = Join sys migrationsDir (up_file_name timestamp name);
          downFile = Join sys migrationsDir (down_file_name timestamp name)
      in case MkdirAll sys migrationsDir of
           Some err \<Rightarrow> (Some (''Failed to create migrations directory: '' @ err), dk)
         | None \<Rightarrow>
             (let dk1 = dk\<lparr>directories := insert migrationsDir (directories dk)\<rparr>
              in case WriteFile sys upFile of
                   Some err \<Rightarrow> (Some (''Failed to create up migration file: '' @ err), dk1)
                 | None \<Rightarrow>
                     (let dk2 = dk1\<lparr>files := (files dk1)(upFile \<mapsto> upContent timestamp name)\<rparr>
                      in case WriteFile sys downFile of
                           Some err \<Rightarrow>
                             (Some (''Failed to create down migration file: '' @ err), dk2)
                         | None \<Rightarrow>
                             (None,
                              dk2\<lparr>files := (files dk2)(downFile \<mapsto> downContent timestamp name),
                                  printed := printed dk2 @
                                    [CreatedFiles, UpLine upFile, DownLine downFile]\<rparr>))))"

text \<open>A clock reading within the years that four digits can write.\<close>

definition four_digit_clock :: "clock \<Rightarrow> bool" where
  "four_digit_clock t \<longleftrightarrow>
     0 \<le> Year t \<and> Year t \<le> 9999 \<and> 1 \<le> Month t \<and> Month t \<le> 12 \<and> 1 \<le> Day t \<and> Day t \<le> 31 \<and>
     0 \<le> Hour t \<and> Hour t \<le> 23 \<and> 0 \<le> Minute t \<and> Minute t \<le> 59 \<and> 0 \<le> Second t \<and> Second t \<le> 59"

text \<open>One clock reading is earlier than another: the order of the calendar fields.\<close>

definition earlier :: "clock \<Rightarrow> clock \<Rightarrow> bool" where
  "earlier s t \<longleftrightarrow>
     [Year s, Month s, Day s, Hour s, Minute s, Second s]
       < [Year t, Month t, Day t, Hour t, Minute t, Second t]"

text \<open>An operating system at 2024-01-02 03:04:05 on which nothing fails, and an empty
  disk.\<close>

definition sample_os :: os where
  "sample_os =
     \<lparr>Now = \<lparr>Year = 2024, Month = 1, Day = 2, Hour = 3, Minute = 4, Second = 5\<rparr>,
      Join = (\<lambda>dir file. dir @ ''/'' @ file),
      MkdirAll = (\<lambda>p. None),
      WriteFile = (\<lambda>p. None)\<rparr>"

definition empty_disk :: disk where
  "empty_disk = \<lparr>files = Map.empty, directories = {}, printed = []\<rparr>"

text \<open>What the program relies on of the runtime's sort of long slices: with either of
  the two comparisons of the source, the result is a rearrangement of the slice, in
  ascending order of version for the first and in descending order for the second.\<close>

definition sorts_by_version :: "go_runtime \<Rightarrow> bool" where
  "sorts_by_version rt \<longleftrightarrow>
     (\<forall>xs. mset (pdqsort rt (\<lambda>a b. Version a < Version b) xs) = mset xs
          \<and> sorted (map Version (pdqsort rt (\<lambda>a b. Version a < Version b) xs))
          \<and> mset (pdqsort rt (\<lambda>a b. Version a > Version b) xs) = mset xs
          \<and> sorted_wrt (\<lambda>a b. Version a \<ge> Version b)
               (pdqsort rt (\<lambda>a b. Version a > Version b) xs))"


text \<open>The empty database after \<open>migrateUp\<close> has applied the sample migrations.\<close>

definition after_first_up :: "string list world" where
  "after_first_up = snd (migrateUp sample_driver sample_migrations fresh_world)"

text \<open>The files of the sample directory as another scan lists them.\<close>

definition shuffled_directory :: directory where
  "shuffled_directory =
     \<lparr>Glob = Inr [''m/2_b.up.sql'', ''m/1_a.down.sql'', ''m/1_a.up.sql''],
      ReadFile = (\<lambda>p. Inr (''do '' @ p))\<rparr>"

text \<open>An operating system whose clock reads the first second of the year 10000.\<close>

definition late_os :: os where
  "late_os =
     \<lparr>Now = \<lparr>Year = 10000, Month = 1, Day = 1, Hour = 0, Minute = 0, Second = 0\<rparr>,
      Join = (\<lambda>dir file. dir @ ''/'' @ file),
      MkdirAll = (\<lambda>p. None),
      WriteFile = (\<lambda>p. None)\<rparr>"

section \<open>Supporting lemmas\<close>

lemma index_foldl: "index_map (foldl (\<lambda>am m. am(m \<mapsto> True)) am0 xs) v \<longleftrightarrow> v \<in> set xs \<or> index_map am0 v"
  by (induction xs arbitrary: am0) (auto simp: index_map_def)

lemma index_make_appliedMap: "index_map (make_appliedMap applied) v \<longleftrightarrow> v \<in> set applied"
  unfolding make_appliedMap_def index_foldl by (simp add: index_map_def)

lemma contains_iff: "contains xs v \<longleftrightarrow> v \<in> set xs"
  by (induction xs) auto

lemmas db_defs = db_Begin_def tx_Exec_def recordMigration_def removeMigration_def tx_Commit_def tx_Rollback_def issue_def Printf_def Let_def

lemma applyUp_failure_contents:
  "applyUp d m w = (Some e, w') \<Longrightarrow> schema w' = schema w \<and> migration_log w' = migration_log w"
  by (auto simp: applyUp_def db_defs split: option.splits sum.splits if_splits)

lemma applyUp_success:
  "applyUp d m w = (None, w') \<Longrightarrow>
     run_sql d (UpSQL m) (schema w) = Inr (schema w') \<and>
     Version m \<notin> set (map row_version (migration_log w)) \<and>
     (\<exists>r. migration_log w' = migration_log w @ [r] \<and> row_version r = Version m \<and> row_name r = Name m \<and> row_direction r = ''up'') \<and>
     stdout w' = stdout w @ [Applying (Version m) (Name m), Applied (Version m) (Name m)] \<and>
     calls w' = calls w @ [CallBegin, CallExec (UpSQL m), CallInsert (Version m) (Name m) ''up'', CallCommit]"
  by (auto simp: applyUp_def db_defs split: option.splits sum.splits if_splits)

lemma applyUp_failure_trace:
  "applyUp d m w = (Some e, w') \<Longrightarrow>
     stdout w' = stdout w @ [Applying (Version m) (Name m)] \<and>
     (\<exists>cs. calls w' = calls w @ cs \<and> (exec_bodies cs = [] \<or> exec_bodies cs = [UpSQL m]) \<and> inserted cs \<in> {[], [Version m]})"
  by (auto simp: applyUp_def db_defs exec_bodies_def inserted_def split: option.splits sum.splits if_splits)

lemma applyDown_failure_contents:
  "applyDown d m w = (Some e, w') \<Longrightarrow> schema w' = schema w \<and> migration_log w' = migration_log w"
  by (auto simp: applyDown_def db_defs split: option.splits sum.splits if_splits)

lemma applyDown_success:
  "applyDown d m w = (None, w') \<Longrightarrow>
     run_sql d (DownSQL m) (schema w) = Inr (schema w') \<and>
     migration_log w' = filter (\<lambda>r. row_version r \<noteq> Version m) (migration_log w) \<and>
     stdout w' = stdout w @ [RollingBack (Version m) (Name m), RolledBack (Version m) (Name m)] \<and>
     calls w' = calls w @ [CallBegin, CallExec (DownSQL m), CallDelete (Version m), CallCommit]"
  by (auto simp: applyDown_def db_defs split: option.splits sum.splits if_splits)


lemma migrateUp_loop_append:
  "migrateUp_loop d am (xs @ ys) w =
     (case migrateUp_loop d am xs w of (Some e, w1) \<Rightarrow> (Some e, w1) | (None, w1) \<Rightarrow> migrateUp_loop d am ys w1)"
  by (induction xs arbitrary: w) (auto split: prod.splits option.splits)

lemma migrateUp_loop_success_log:
  "migrateUp_loop d am ms w = (None, w') \<Longrightarrow>
     map log_entry (migration_log w') =
       map log_entry (migration_log w) @ map up_entry (filter (\<lambda>m. \<not> index_map am (Version m)) ms)"
proof (induction ms arbitrary: w)
  case Nil
  then show ?case by simp
next
  case (Cons m ms)
  show ?case
  proof (cases "index_map am (Version m)")
    case True
    with Cons.prems have "migrateUp_loop d am ms (Printf (AlreadyApplied (Version m) (Name m)) w) = (None, w')"
      by simp
    from Cons.IH[OF this] True show ?thesis by (simp add: Printf_def)
  next
    case False
    with Cons.prems obtain w1 where s: "applyUp d m w = (None, w1)" and r: "migrateUp_loop d am ms w1 = (None, w')"
      by (auto split: prod.splits option.splits)
    from applyUp_success[OF s] obtain r0 where "migration_log w1 = migration_log w @ [r0]" "log_entry r0 = up_entry m"
      by (auto simp: log_entry_def up_entry_def)
    with Cons.IH[OF r] False show ?thesis by simp
  qed
qed

lemma migrateUp_loop_success_schema:
  "migrateUp_loop d am ms w = (None, w') \<Longrightarrow>
     run_all_sql d (map UpSQL (filter (\<lambda>m. \<not> index_map am (Version m)) ms)) (schema w) = Inr (schema w')"
proof (induction ms arbitrary: w)
  case Nil
  then show ?case by simp
next
  case (Cons m ms)
  show ?case
  proof (cases "index_map am (Version m)")
    case True
    with Cons.prems have "migrateUp_loop d am ms (Printf (AlreadyApplied (Version m) (Name m)) w) = (None, w')"
      by simp
    from Cons.IH[OF this] True show ?thesis by (simp add: Printf_def)
  next
    case False
    with Cons.prems obtain w1 where s: "applyUp d m w = (None, w1)" and r: "migrateUp_loop d am ms w1 = (None, w')"
      by (auto split: prod.splits option.splits)
    from applyUp_success[OF s] have "run_sql d (UpSQL m) (schema w) = Inr (schema w1)" by simp
    with Cons.IH[OF r] False show ?thesis by simp
  qed
qed


lemma getAppliedMigrations_world:
  "getAppliedMigrations d w = (r, wq) \<Longrightarrow> wq = issue CallQuery w"
  by (auto simp: getAppliedMigrations_def split: option.splits)

lemma select_applied_set:
  "set (select_applied rows) = {row_version r |r. r \<in> set rows \<and> row_direction r = ''up''}"
  by (auto simp: select_applied_def)

lemma getAppliedMigrations_cases:
  assumes "getAppliedMigrations d w = (Inr applied, wq)"
  shows "fault d (length (calls w)) = None"
    and "applied = (case rows_read d (length (calls w)) of
                      None \<Rightarrow> select_applied (migration_log w)
                    | Some k \<Rightarrow> take k (select_applied (migration_log w)))"
  using assms by (auto simp: getAppliedMigrations_def split: option.splits)

lemma getAppliedMigrations_subset:
  assumes "getAppliedMigrations d w = (Inr applied, wq)"
  shows "set applied
     \<subseteq> {row_version r |r. r \<in> set (migration_log w) \<and> row_direction r = ''up''}"
proof -
  have "set applied \<subseteq> set (select_applied (migration_log w))"
    unfolding getAppliedMigrations_cases(2)[OF assms]
    by (cases "rows_read d (length (calls w))") (simp_all add: set_take_subset)
  then show ?thesis unfolding select_applied_set .
qed

lemma getAppliedMigrations_set:
  assumes "getAppliedMigrations d w = (Inr applied, wq)"
    and "rows_read d (length (calls w)) = None"
  shows "set applied = {row_version r |r. r \<in> set (migration_log w) \<and> row_direction r = ''up''}"
  using getAppliedMigrations_cases(2)[OF assms(1)] assms(2) by (simp add: select_applied_set)

lemma up_plan_index: "filter (\<lambda>m. \<not> index_map (make_appliedMap applied) (Version m)) ms = up_plan applied ms"
  by (simp add: up_plan_def index_make_appliedMap)

lemma migrateUp_loop_success_trace:
  "migrateUp_loop d (make_appliedMap applied) ms w = (None, w') \<Longrightarrow>
     stdout w' = stdout w @ up_report applied ms \<and>
     calls w' = calls w @ concat (map up_calls (up_plan applied ms))"
proof (induction ms arbitrary: w)
  case Nil
  then show ?case by (simp add: up_report_def up_plan_def)
next
  case (Cons m ms)
  show ?case
  proof (cases "Version m \<in> set applied")
    case True
    with Cons.prems have "migrateUp_loop d (make_appliedMap applied) ms (Printf (AlreadyApplied (Version m) (Name m)) w) = (None, w')"
      by (simp add: index_make_appliedMap)
    from Cons.IH[OF this] True show ?thesis by (simp add: Printf_def up_report_def up_plan_def)
  next
    case False
    with Cons.prems obtain w1 where s: "applyUp d m w = (None, w1)"
       and r: "migrateUp_loop d (make_appliedMap applied) ms w1 = (None, w')"
      by (auto simp: index_make_appliedMap split: prod.splits option.splits)
    from applyUp_success[OF s] Cons.IH[OF r] False show ?thesis
      by (simp add: up_report_def up_plan_def up_calls_def)
  qed
qed

lemma sample_query: "getAppliedMigrations sample_driver fresh_world = (Inr [], issue CallQuery fresh_world)"
    by (simp add: getAppliedMigrations_def select_applied_def sample_driver_def fresh_world_def)

lemma sample_first_migration: "fst (migrateUp_loop sample_driver (make_appliedMap []) [sample_migration ''1'' ''one'' ''CREATE a''] (issue CallQuery fresh_world)) = None"
  by (simp add: index_make_appliedMap applyUp_def db_defs sample_driver_def sample_migration_def fresh_world_def)

lemma mset_sift: "mset (sift lt x rs) = add_mset x (mset rs)"
  by (induction rs) auto

lemma set_sift: "set (sift lt x rs) = insert x (set rs)"
  by (induction rs) auto

lemma mset_foldl_sift: "mset (foldl (\<lambda>rs x. sift lt x rs) acc xs) = mset acc + mset xs"
  by (induction xs arbitrary: acc) (auto simp: mset_sift)

lemma mset_insertionSort: "mset (insertionSort lt xs) = mset xs"
  by (simp add: insertionSort_def mset_foldl_sift)

lemma sorted_sift:
  assumes tr: "\<And>a b c. R a b \<Longrightarrow> R b c \<Longrightarrow> R a c"
    and lt1: "\<And>a b. lt a b \<Longrightarrow> R a b"
    and lt2: "\<And>a b. \<not> lt a b \<Longrightarrow> R b a"
  shows "sorted_wrt (\<lambda>a b. R b a) rs \<Longrightarrow> sorted_wrt (\<lambda>a b. R b a) (sift lt x rs)"
proof (induction rs)
  case Nil
  then show ?case by simp
next
  case (Cons y rs)
  show ?case
  proof (cases "lt x y")
    case True
    with Cons lt1 show ?thesis by (auto simp: set_sift)
  next
    case False
    with Cons lt2[OF False] show ?thesis by (auto intro: tr)
  qed
qed

lemma sorted_foldl_sift:
  assumes tr: "\<And>a b c. R a b \<Longrightarrow> R b c \<Longrightarrow> R a c"
    and lt1: "\<And>a b. lt a b \<Longrightarrow> R a b"
    and lt2: "\<And>a b. \<not> lt a b \<Longrightarrow> R b a"
  shows "sorted_wrt (\<lambda>a b. R b a) acc \<Longrightarrow> sorted_wrt (\<lambda>a b. R b a) (foldl (\<lambda>rs x. sift lt x rs) acc xs)"
proof (induction xs arbitrary: acc)
  case Nil
  then show ?case by simp
next
  case (Cons x xs)
  have "sorted_wrt (\<lambda>a b. R b a) (sift lt x acc)"
  proof (rule sorted_sift[where R = R and lt = lt])
    show "\<And>a b c. R a b \<Longrightarrow> R b c \<Longrightarrow> R a c" by (rule tr)
    show "\<And>a b. lt a b \<Longrightarrow> R a b" by (rule lt1)
    show "\<And>a b. \<not> lt a b \<Longrightarrow> R b a" by (rule lt2)
    show "sorted_wrt (\<lambda>a b. R b a) acc" by (rule Cons.prems)
  qed
  from Cons.IH[OF this] show ?case by simp
qed

lemma sorted_insertionSort:
  assumes tr: "\<And>a b c. R a b \<Longrightarrow> R b c \<Longrightarrow> R a c"
    and lt1: "\<And>a b. lt a b \<Longrightarrow> R a b"
    and lt2: "\<And>a b. \<not> lt a b \<Longrightarrow> R b a"
  shows "sorted_wrt R (insertionSort lt xs)"
proof -
  have "sorted_wrt (\<lambda>a b. R b a) (foldl (\<lambda>rs x. sift lt x rs) [] xs)"
  proof (rule sorted_foldl_sift[where R = R and lt = lt])
    show "\<And>a b c. R a b \<Longrightarrow> R b c \<Longrightarrow> R a c" by (rule tr)
    show "\<And>a b. lt a b \<Longrightarrow> R a b" by (rule lt1)
    show "\<And>a b. \<not> lt a b \<Longrightarrow> R b a" by (rule lt2)
    show "sorted_wrt (\<lambda>a b. R b a) []" by simp
  qed
  then show ?thesis by (simp add: insertionSort_def sorted_wrt_rev)
qed

lemma insertionSort_ascending:
  fixes f :: "'a \<Rightarrow> 'b::linorder"
  shows "sorted (map f (insertionSort (\<lambda>a b. f a < f b) xs))"
proof -
  have "sorted_wrt (\<lambda>a b. f a \<le> f b) (insertionSort (\<lambda>a b. f a < f b) xs)"
    by (rule sorted_insertionSort[where R = "\<lambda>a b. f a \<le> f b"]) auto
  then show ?thesis by (simp add: sorted_map)
qed

lemma insertionSort_descending:
  fixes f :: "'a \<Rightarrow> 'b::linorder"
  shows "sorted_wrt (\<lambda>a b. f a \<ge> f b) (insertionSort (\<lambda>a b. f a > f b) xs)"
  by (rule sorted_insertionSort[where R = "\<lambda>a b. f a \<ge> f b"]) auto

lemma mset_sort_Slice_ascending:
  "sorts_by_version rt \<Longrightarrow>
     mset (sort_Slice (pdqsort rt) (\<lambda>a b. Version a < Version b) xs) = mset xs"
  by (simp add: sort_Slice_def mset_insertionSort sorts_by_version_def)

lemma mset_sort_Slice_descending:
  "sorts_by_version rt \<Longrightarrow>
     mset (sort_Slice (pdqsort rt) (\<lambda>a b. Version a > Version b) xs) = mset xs"
  by (simp add: sort_Slice_def mset_insertionSort sorts_by_version_def)

lemma set_sort_Slice_descending:
  assumes "sorts_by_version rt"
  shows "set (sort_Slice (pdqsort rt) (\<lambda>a b. Version a > Version b) xs) = set xs"
  using mset_sort_Slice_descending[OF assms, of xs] by (metis set_mset_mset)

lemma sort_Slice_ascending:
  "sorts_by_version rt \<Longrightarrow>
     sorted (map Version (sort_Slice (pdqsort rt) (\<lambda>a b. Version a < Version b) xs))"
  by (simp add: sort_Slice_def insertionSort_ascending sorts_by_version_def)

lemma sort_Slice_descending:
  "sorts_by_version rt \<Longrightarrow>
     sorted_wrt (\<lambda>a b. Version a \<ge> Version b)
       (sort_Slice (pdqsort rt) (\<lambda>a b. Version a > Version b) xs)"
  using insertionSort_descending[where f = "Version :: Migration \<Rightarrow> string"]
  by (simp add: sort_Slice_def sorts_by_version_def)

lemma insertionSort_sorts: "pdqsort rt = insertionSort \<Longrightarrow> sorts_by_version rt"
  using insertionSort_descending[where f = "Version :: Migration \<Rightarrow> string"]
  by (simp add: sorts_by_version_def mset_insertionSort insertionSort_ascending)

lemma sample_runtime_sorts: "sorts_by_version sample_runtime" "sorts_by_version reversing_runtime"
  by (rule insertionSort_sorts, simp add: sample_runtime_def reversing_runtime_def)+

lemma sorted_distinct_unique:
  fixes f :: "'a \<Rightarrow> 'b::linorder"
  assumes "mset xs = mset ys" "distinct (map f xs)" "sorted (map f xs)" "sorted (map f ys)"
  shows "xs = ys"
proof -
  have s: "set xs = set ys" using assms(1) by (metis set_mset_mset)
  have "mset (map f xs) = mset (map f ys)" using assms(1) by simp
  then have dy: "distinct (map f ys)" using assms(2) by (metis mset_eq_imp_distinct_iff)
  have inj: "inj_on f (set xs \<union> set ys)" using assms(2) s by (simp add: distinct_map)
  show ?thesis
    by (rule map_sorted_distinct_set_unique[OF inj assms(3) assms(2) assms(4) dy s])
qed

lemma observations_Nil [simp]:
  "exec_bodies [] = []" "inserted [] = []" "announced_up [] = []" "reported_applied [] = []"
  "announced_down [] = []"
  by (simp_all add: exec_bodies_def inserted_def announced_up_def reported_applied_def
        announced_down_def)

lemma observations_Cons [simp]:
  "exec_bodies (c # cs) = (case c of CallExec b \<Rightarrow> [b] | _ \<Rightarrow> []) @ exec_bodies cs"
  "inserted (c # cs) = (case c of CallInsert v n dr \<Rightarrow> [v] | _ \<Rightarrow> []) @ inserted cs"
  "announced_up (x # out) = (case x of Applying v n \<Rightarrow> [(v, n)] | _ \<Rightarrow> []) @ announced_up out"
  "reported_applied (x # out) =
     (case x of AlreadyApplied v n \<Rightarrow> [(v, n)] | _ \<Rightarrow> []) @ reported_applied out"
  "announced_down (x # out) =
     (case x of RollingBack v n \<Rightarrow> [(v, n)] | _ \<Rightarrow> []) @ announced_down out"
  by (simp_all add: exec_bodies_def inserted_def announced_up_def reported_applied_def
        announced_down_def)

lemma exec_bodies_append [simp]: "exec_bodies (xs @ ys) = exec_bodies xs @ exec_bodies ys"
  by (simp add: exec_bodies_def)

lemma announced_up_append [simp]: "announced_up (xs @ ys) = announced_up xs @ announced_up ys"
  by (simp add: announced_up_def)

lemma reported_applied_append [simp]: "reported_applied (xs @ ys) = reported_applied xs @ reported_applied ys"
  by (simp add: reported_applied_def)

lemma announced_down_append [simp]: "announced_down (xs @ ys) = announced_down xs @ announced_down ys"
  by (simp add: announced_down_def)





lemma announced_down_report: "announced_down (concat (map down_report ms)) = map ident ms"
  by (induction ms) (simp_all add: down_report_def ident_def)





lemma down_selected_Cons:
  "down_selected applied (m # ms) =
     (if Version m \<in> set applied then m # down_selected applied ms else down_selected applied ms)"
  by (simp add: down_selected_def)

lemma up_plan_Cons:
  "up_plan applied (m # ms) =
     (if Version m \<in> set applied then up_plan applied ms else m # up_plan applied ms)"
  by (simp add: up_plan_def)

lemma migrateDown_loop_success:
  "migrateDown_loop d applied ms w = (None, w') \<Longrightarrow>
     stdout w' = stdout w @ concat (map down_report (down_selected applied ms)) \<and>
     calls w' = calls w @ concat (map down_calls (down_selected applied ms)) \<and>
     migration_log w' =
       filter (\<lambda>r. row_version r \<notin> Version ` set (down_selected applied ms)) (migration_log w) \<and>
     run_all_sql d (map DownSQL (down_selected applied ms)) (schema w) = Inr (schema w')"
proof (induction ms arbitrary: w)
  case Nil
  then show ?case by (simp add: down_selected_def)
next
  case (Cons m ms)
  show ?case
  proof (cases "Version m \<in> set applied")
    case False
    with Cons.prems have "migrateDown_loop d applied ms w = (None, w')"
      by (simp add: contains_iff)
    from Cons.IH[OF this] False show ?thesis by (simp add: down_selected_Cons)
  next
    case True
    with Cons.prems obtain w1 where s: "applyDown d m w = (None, w1)"
       and r: "migrateDown_loop d applied ms w1 = (None, w')"
      by (auto simp: contains_iff split: prod.splits option.splits)
    from applyDown_success[OF s] Cons.IH[OF r] True show ?thesis
      by (simp add: down_selected_Cons down_report_def down_calls_def conj_commute)
  qed
qed


lemma loadMigrations_sorted:
  "sorts_by_version rt \<Longrightarrow> loadMigrations rt dir = Inr ms \<Longrightarrow> sorted (map Version ms)"
  by (auto simp: loadMigrations_def sort_Slice_ascending split: sum.splits)


lemma sample_load: "loadMigrations sample_runtime sample_directory = Inr sample_migrations"
  by code_simp



lemma inserted_append [simp]: "inserted (xs @ ys) = inserted xs @ inserted ys"
  by (simp add: inserted_def)

lemma migrateUp_loop_all_applied:
  "\<forall>m\<in>set ms. Version m \<in> set applied \<Longrightarrow>
     migrateUp_loop d (make_appliedMap applied) ms w =
       (None, w\<lparr>stdout := stdout w @ map (\<lambda>m. AlreadyApplied (Version m) (Name m)) ms\<rparr>)"
  by (induction ms arbitrary: w) (simp_all add: index_make_appliedMap Printf_def)

lemma migrateUp_loop_success_rows:
  "migrateUp_loop d am ms w = (None, w') \<Longrightarrow>
     \<exists>rows. migration_log w' = migration_log w @ rows \<and>
       map log_entry rows = map up_entry (filter (\<lambda>m. \<not> index_map am (Version m)) ms) \<and>
       distinct (map row_version rows) \<and>
       set (map row_version rows) \<inter> set (map row_version (migration_log w)) = {}"
proof (induction ms arbitrary: w)
  case Nil
  then show ?case by simp
next
  case (Cons m ms)
  show ?case
  proof (cases "index_map am (Version m)")
    case True
    with Cons.prems have "migrateUp_loop d am ms (Printf (AlreadyApplied (Version m) (Name m)) w) = (None, w')"
      by simp
    from Cons.IH[OF this] True show ?thesis by (simp add: Printf_def)
  next
    case False
    with Cons.prems obtain w1 where s: "applyUp d m w = (None, w1)" and r: "migrateUp_loop d am ms w1 = (None, w')"
      by (auto split: prod.splits option.splits)
    from applyUp_success[OF s] obtain r0 where r0: "migration_log w1 = migration_log w @ [r0]"
       "log_entry r0 = up_entry m" "row_version r0 = Version m"
       "Version m \<notin> set (map row_version (migration_log w))"
      by (auto simp: log_entry_def up_entry_def)
    from Cons.IH[OF r] obtain rows where rows: "migration_log w' = migration_log w1 @ rows"
       "map log_entry rows = map up_entry (filter (\<lambda>m. \<not> index_map am (Version m)) ms)"
       "distinct (map row_version rows)"
       "set (map row_version rows) \<inter> set (map row_version (migration_log w1)) = {}"
      by blast
    from r0 rows False show ?thesis
      by (intro exI[of _ "r0 # rows"]) auto
  qed
qed

lemma log_entry_up:
  "(\<exists>r\<in>set rows. row_version r = v \<and> row_direction r = ''up'') \<longleftrightarrow>
   (\<exists>n. (v, n, ''up'') \<in> set (map log_entry rows))"
  by (force simp: log_entry_def image_iff)

lemma getAppliedMigrations_mem_row:
  "getAppliedMigrations d w = (Inr applied, wq) \<Longrightarrow> v \<in> set applied \<Longrightarrow>
     \<exists>n. (v, n, ''up'') \<in> set (map log_entry (migration_log w))"
  unfolding log_entry_up[symmetric] using getAppliedMigrations_subset by fastforce

lemma getAppliedMigrations_mem:
  "getAppliedMigrations d w = (Inr applied, wq) \<Longrightarrow> rows_read d (length (calls w)) = None \<Longrightarrow>
     v \<in> set applied \<longleftrightarrow> (\<exists>n. (v, n, ''up'') \<in> set (map log_entry (migration_log w)))"
  unfolding log_entry_up[symmetric] by (auto simp: getAppliedMigrations_set)

lemma migrateUp_success_all_recorded:
  assumes "migrateUp d ms w = (None, w1)" "m \<in> set ms"
  shows "\<exists>n. (Version m, n, ''up'') \<in> set (map log_entry (migration_log w1))"
proof -
  from assms(1) obtain applied wq where q: "getAppliedMigrations d w = (Inr applied, wq)"
    and l: "migrateUp_loop d (make_appliedMap applied) ms wq = (None, w1)"
    by (auto simp: migrateUp_def split: prod.splits sum.splits)
  have wq: "migration_log wq = migration_log w"
    using getAppliedMigrations_world[OF q] by (simp add: issue_def)
  from migrateUp_loop_success_log[OF l] have lg: "map log_entry (migration_log w1) =
      map log_entry (migration_log w) @ map up_entry (up_plan applied ms)"
    by (simp add: up_plan_index wq)
  show ?thesis
  proof (cases "Version m \<in> set applied")
    case True
    then obtain n where "(Version m, n, ''up'') \<in> set (map log_entry (migration_log w))"
      using getAppliedMigrations_mem_row[OF q] by blast
    then show ?thesis unfolding lg by auto
  next
    case False
    with assms(2) have "up_entry m \<in> set (map up_entry (up_plan applied ms))"
      by (simp add: up_plan_def)
    then show ?thesis unfolding lg by (auto simp: up_entry_def)
  qed
qed

lemma distinct_filter_le_one:
  "distinct (map f xs) \<longleftrightarrow> (\<forall>v. length (filter (\<lambda>x. f x = v) xs) \<le> 1)"
proof (induction xs)
  case Nil
  then show ?case by simp
next
  case (Cons x xs)
  have a: "f x \<notin> f ` set xs \<longleftrightarrow> filter (\<lambda>y. f y = f x) xs = []"
    by (auto simp: filter_empty_conv image_iff)
  show ?case
  proof
    assume d: "distinct (map f (x # xs))"
    with Cons have "\<forall>v. length (filter (\<lambda>x. f x = v) xs) \<le> 1" by simp
    with d a show "\<forall>v. length (filter (\<lambda>y. f y = v) (x # xs)) \<le> 1" by auto
  next
    assume h: "\<forall>v. length (filter (\<lambda>y. f y = v) (x # xs)) \<le> 1"
    have "length (filter (\<lambda>y. f y = v) xs) \<le> 1" for v
      using h[rule_format, of v] by (simp split: if_splits)
    with Cons have "distinct (map f xs)" by blast
    moreover from h[rule_format, of "f x"] have "filter (\<lambda>y. f y = f x) xs = []" by simp
    ultimately show "distinct (map f (x # xs))" using a by simp
  qed
qed

lemma unique_versions_iff:
  "(\<forall>v. length (rows_of v rows) \<le> 1) \<longleftrightarrow> distinct (map row_version rows)"
  unfolding rows_of_def by (rule distinct_filter_le_one[symmetric])

lemma applyUp_distinct:
  assumes "applyUp d m w = (r, w')" "distinct (map row_version (migration_log w))"
  shows "distinct (map row_version (migration_log w'))"
proof (cases r)
  case None
  from applyUp_success[OF assms(1)[unfolded None]] assms(2) show ?thesis by auto
next
  case (Some e)
  from applyUp_failure_contents[OF assms(1)[unfolded Some]] assms(2) show ?thesis by simp
qed

lemma applyDown_distinct:
  assumes "applyDown d m w = (r, w')" "distinct (map row_version (migration_log w))"
  shows "distinct (map row_version (migration_log w'))"
proof (cases r)
  case None
  from applyDown_success[OF assms(1)[unfolded None]] assms(2) show ?thesis
    by (simp add: distinct_map_filter)
next
  case (Some e)
  from applyDown_failure_contents[OF assms(1)[unfolded Some]] assms(2) show ?thesis by simp
qed

lemma migrateUp_loop_distinct:
  "migrateUp_loop d am ms w = (r, w') \<Longrightarrow> distinct (map row_version (migration_log w)) \<Longrightarrow>
     distinct (map row_version (migration_log w'))"
proof (induction ms arbitrary: w)
  case Nil
  then show ?case by simp
next
  case (Cons m ms)
  show ?case
  proof (cases "index_map am (Version m)")
    case True
    with Cons.prems(1) have "migrateUp_loop d am ms (Printf (AlreadyApplied (Version m) (Name m)) w) = (r, w')"
      by simp
    from Cons.IH[OF this] Cons.prems(2) show ?thesis by (simp add: Printf_def)
  next
    case False
    obtain r1 w1 where s: "applyUp d m w = (r1, w1)" by (cases "applyUp d m w")
    note d1 = applyUp_distinct[OF s Cons.prems(2)]
    show ?thesis
    proof (cases r1)
      case None
      with Cons.prems(1) False s have "migrateUp_loop d am ms w1 = (r, w')" by simp
      from Cons.IH[OF this d1] show ?thesis .
    next
      case (Some e)
      with Cons.prems(1) False s have "w' = w1" by simp
      with d1 show ?thesis by simp
    qed
  qed
qed

lemma migrateDown_loop_distinct:
  "migrateDown_loop d applied ms w = (r, w') \<Longrightarrow> distinct (map row_version (migration_log w)) \<Longrightarrow>
     distinct (map row_version (migration_log w'))"
proof (induction ms arbitrary: w)
  case Nil
  then show ?case by simp
next
  case (Cons m ms)
  show ?case
  proof (cases "contains applied (Version m)")
    case False
    with Cons.prems(1) have "migrateDown_loop d applied ms w = (r, w')" by simp
    from Cons.IH[OF this Cons.prems(2)] show ?thesis .
  next
    case True
    obtain r1 w1 where s: "applyDown d m w = (r1, w1)" by (cases "applyDown d m w")
    note d1 = applyDown_distinct[OF s Cons.prems(2)]
    show ?thesis
    proof (cases r1)
      case None
      with Cons.prems(1) True s have "migrateDown_loop d applied ms w1 = (r, w')" by simp
      from Cons.IH[OF this d1] show ?thesis .
    next
      case (Some e)
      with Cons.prems(1) True s have "w' = w1" by simp
      with d1 show ?thesis by simp
    qed
  qed
qed

lemma migrateUp_distinct:
  assumes "distinct (map row_version (migration_log w))"
  shows "distinct (map row_version (migration_log (snd (migrateUp d ms w))))"
proof (cases "getAppliedMigrations d w")
  case (Pair a wq)
  have wq: "wq = issue CallQuery w" using Pair by (rule getAppliedMigrations_world)
  show ?thesis
  proof (cases a)
    case (Inl e)
    with Pair wq assms show ?thesis by (simp add: migrateUp_def issue_def)
  next
    case (Inr applied)
    obtain r w' where l: "migrateUp_loop d (make_appliedMap applied) ms wq = (r, w')"
      by (cases "migrateUp_loop d (make_appliedMap applied) ms wq")
    have "distinct (map row_version (migration_log wq))" using assms wq by (simp add: issue_def)
    from migrateUp_loop_distinct[OF l this] Pair Inr l show ?thesis by (simp add: migrateUp_def)
  qed
qed

lemma migrateDown_distinct:
  assumes "distinct (map row_version (migration_log w))"
  shows "distinct (map row_version (migration_log (snd (migrateDown rt d ms w))))"
proof (cases "getAppliedMigrations d w")
  case (Pair a wq)
  have wq: "wq = issue CallQuery w" using Pair by (rule getAppliedMigrations_world)
  show ?thesis
  proof (cases a)
    case (Inl e)
    with Pair wq assms show ?thesis by (simp add: migrateDown_def issue_def)
  next
    case (Inr applied)
    let ?ms = "sort_Slice (pdqsort rt) (\<lambda>a b. Version a > Version b) ms"
    obtain r w' where l: "migrateDown_loop d applied ?ms wq = (r, w')"
      by (cases "migrateDown_loop d applied ?ms wq")
    have "distinct (map row_version (migration_log wq))" using assms wq by (simp add: issue_def)
    from migrateDown_loop_distinct[OF l this] Pair Inr l show ?thesis by (simp add: migrateDown_def)
  qed
qed

lemma runMigrations_distinct:
  assumes "distinct (map row_version (migration_log w))"
  shows "distinct (map row_version (migration_log (snd (runMigrations iv direction w))))"
proof (cases "LoadConfig iv")
  case (Some e)
  with assms show ?thesis by (simp add: runMigrations_def)
next
  case None
  show ?thesis
  proof (cases "NewMySQLDB iv")
    case (Inl e)
    with None assms show ?thesis by (simp add: runMigrations_def)
  next
    case (Inr db)
    obtain r1 w1 where c: "createMigrationLogTable db w = (r1, w1)"
      by (cases "createMigrationLogTable db w")
    then have d1: "distinct (map row_version (migration_log w1))"
      using assms by (auto simp: createMigrationLogTable_def issue_def)
    show ?thesis
    proof (cases r1)
      case (Some e)
      with None Inr c d1 show ?thesis by (simp add: runMigrations_def)
    next
      case r1: None
      show ?thesis
      proof (cases "loadMigrations (runtime iv) (migrations_dir iv)")
        case (Inl e)
        with None Inr c r1 d1 show ?thesis by (simp add: runMigrations_def)
      next
        case ms: (Inr ms)
        have p: "distinct (map row_version (migration_log (Printf x w1)))" for x
          using d1 by (simp add: Printf_def)
        show ?thesis
        proof (cases "direction = ''up''")
          case True
          obtain r2 w2 where u: "migrateUp db ms (Printf RunningUp w1) = (r2, w2)"
            by (cases "migrateUp db ms (Printf RunningUp w1)")
          from migrateUp_distinct[OF p, of db ms RunningUp] u
          have "distinct (map row_version (migration_log w2))" by simp
          with None Inr c r1 ms True u show ?thesis
            by (cases r2) (simp_all add: runMigrations_def Printf_def)
        next
          case False
          obtain r2 w2 where u: "migrateDown (runtime iv) db ms (Printf RunningDown w1) = (r2, w2)"
            by (cases "migrateDown (runtime iv) db ms (Printf RunningDown w1)")
          from migrateDown_distinct[OF p, of "runtime iv" db ms RunningDown] u
          have "distinct (map row_version (migration_log w2))" by simp
          with None Inr c r1 ms False u show ?thesis
            by (cases r2) (simp_all add: runMigrations_def Printf_def)
        qed
      qed
    qed
  qed
qed

lemma run_sequence_distinct:
  "distinct (map row_version (migration_log w)) \<Longrightarrow>
     distinct (map row_version (migration_log (run_sequence runs w)))"
  by (induction runs arbitrary: w) (simp_all add: runMigrations_distinct)

lemma rows_of_append [simp]: "rows_of v (xs @ ys) = rows_of v xs @ rows_of v ys"
  by (simp add: rows_of_def)

lemma rows_of_distinct_single:
  "distinct (map row_version rows) \<Longrightarrow> r \<in> set rows \<Longrightarrow> rows_of (row_version r) rows = [r]"
proof (induction rows)
  case Nil
  then show ?case by simp
next
  case (Cons x rows)
  show ?case
  proof (cases "x = r")
    case True
    with Cons.prems have "filter (\<lambda>y. row_version y = row_version r) rows = []"
      by (auto simp: filter_empty_conv image_iff)
    with True show ?thesis by (simp add: rows_of_def)
  next
    case False
    with Cons.prems have "r \<in> set rows" "row_version x \<noteq> row_version r"
      by (auto simp: image_iff)
    with Cons show ?thesis by (simp add: rows_of_def)
  qed
qed

lemma rows_of_empty_iff: "rows_of v rows = [] \<longleftrightarrow> v \<notin> set (map row_version rows)"
  by (auto simp: rows_of_def filter_empty_conv image_iff)

lemma migrateDown_success_removed:
  assumes "migrateDown rt d ms w = (None, w')" "m \<in> set ms"
    and "\<exists>n. (Version m, n, ''up'') \<in> set (map log_entry (migration_log w))"
    and complete: "rows_read d (length (calls w)) = None"
    and sorts: "sorts_by_version rt"
  shows "rows_of (Version m) (migration_log w') = []"
proof -
  let ?ms = "sort_Slice (pdqsort rt) (\<lambda>a b. Version a > Version b) ms"
  from assms(1) obtain applied wq where q: "getAppliedMigrations d w = (Inr applied, wq)"
    and l: "migrateDown_loop d applied ?ms wq = (None, w')"
    by (auto simp: migrateDown_def split: prod.splits sum.splits)
  have wq: "migration_log wq = migration_log w"
    using getAppliedMigrations_world[OF q] by (simp add: issue_def)
  have "Version m \<in> set applied"
    using assms(3) getAppliedMigrations_mem[OF q complete] by blast
  with assms(2) have "m \<in> set (down_selected applied ?ms)"
    by (simp add: down_selected_def set_sort_Slice_descending[OF sorts])
  then have in_sel: "Version m \<in> Version ` set (down_selected applied ?ms)" by (rule imageI)
  from migrateDown_loop_success[OF l]
  have lg: "migration_log w' =
      filter (\<lambda>r. row_version r \<notin> Version ` set (down_selected applied ?ms)) (migration_log w)"
    by (simp add: wq)
  show ?thesis
    unfolding lg rows_of_def filter_empty_conv using in_sel by auto
qed

lemma migrateUp_success_single_row:
  assumes "migrateUp d ms w = (None, w')" "m \<in> set ms"
    and "rows_of (Version m) (migration_log w) = []"
  shows "\<exists>r. rows_of (Version m) (migration_log w') = [r] \<and> row_direction r = ''up''"
proof -
  from assms(1) obtain applied wq where q: "getAppliedMigrations d w = (Inr applied, wq)"
    and l: "migrateUp_loop d (make_appliedMap applied) ms wq = (None, w')"
    by (auto simp: migrateUp_def split: prod.splits sum.splits)
  have wq: "migration_log wq = migration_log w"
    using getAppliedMigrations_world[OF q] by (simp add: issue_def)
  have absent: "Version m \<notin> set (map row_version (migration_log w))"
    using assms(3) by (simp add: rows_of_empty_iff)
  have "Version m \<notin> set applied"
  proof
    assume "Version m \<in> set applied"
    then obtain n where "(Version m, n, ''up'') \<in> set (map log_entry (migration_log w))"
      using getAppliedMigrations_mem_row[OF q] by blast
    then have "Version m \<in> set (map row_version (migration_log w))"
      by (auto simp: log_entry_def)
    with absent show False by contradiction
  qed
  with assms(2) have pend: "m \<in> set (up_plan applied ms)" by (simp add: up_plan_def)
  from migrateUp_loop_success_rows[OF l] obtain rows where rows:
    "migration_log w' = migration_log w @ rows"
    "map log_entry rows = map up_entry (up_plan applied ms)"
    "distinct (map row_version rows)"
    by (auto simp: wq up_plan_index)
  from pend have "up_entry m \<in> set (map log_entry rows)" unfolding rows(2) by simp
  then obtain r where r: "r \<in> set rows" "log_entry r = up_entry m" by auto
  then have rv: "row_version r = Version m" "row_direction r = ''up''"
    by (simp_all add: log_entry_def up_entry_def)
  from rows_of_distinct_single[OF rows(3) r(1)] rv assms(3) rows(1) show ?thesis by simp
qed

lemma after_up_run: "migrateUp sample_driver single_migration fresh_world = (None, after_up)"
proof -
  have "fst (migrateUp sample_driver single_migration fresh_world) = None"
    by code_simp
  then show ?thesis unfolding after_up_def by (metis prod.collapse)
qed

lemma after_down_run:
  "migrateDown sample_runtime sample_driver single_migration after_up = (None, after_down)"
proof -
  have "fst (migrateDown sample_runtime sample_driver single_migration after_up) = None"
    by code_simp
  then show ?thesis unfolding after_down_def by (metis prod.collapse)
qed

lemma after_reapply_run: "migrateUp sample_driver single_migration after_down = (None, after_reapply)"
proof -
  have "fst (migrateUp sample_driver single_migration after_down) = None"
    by code_simp
  then show ?thesis unfolding after_reapply_def by (metis prod.collapse)
qed

lemma after_logs:
  "map log_entry (migration_log after_up) = [(''1'', ''one'', ''up'')]"
  "migration_log after_down = []"
  "map log_entry (migration_log after_reapply) = [(''1'', ''one'', ''up'')]"
  by code_simp+


lemma after_reapply_count: "length (rows_of ''1'' (migration_log after_reapply)) = 1"
  by code_simp

lemma after_up_nonempty: "migration_log after_up \<noteq> []"
  using after_logs(1) by auto

lemma mixed_applied:
  "getAppliedMigrations sample_driver mixed_world = (Inr [''1'', ''2''], issue CallQuery mixed_world)"
  by (simp add: getAppliedMigrations_def select_applied_def sample_driver_def mixed_world_def)

lemma sorted_descending_unique:
  fixes f :: "'a \<Rightarrow> 'b::linorder"
  assumes "mset xs = mset ys" "distinct (map f xs)"
    "sorted_wrt (\<lambda>a b. f a \<ge> f b) xs" "sorted_wrt (\<lambda>a b. f a \<ge> f b) ys"
  shows "xs = ys"
proof -
  have "rev xs = rev ys"
  proof (rule sorted_distinct_unique[where f = f])
    show "mset (rev xs) = mset (rev ys)" using assms(1) by simp
    show "distinct (map f (rev xs))" using assms(2) by (simp add: distinct_rev rev_map[symmetric])
    show "sorted (map f (rev xs))" using assms(3) by (simp add: sorted_map sorted_wrt_rev)
    show "sorted (map f (rev ys))" using assms(4) by (simp add: sorted_map sorted_wrt_rev)
  qed
  then show ?thesis by simp
qed

lemma sort_Slice_descending_permuted:
  assumes "mset xs = mset ys" "distinct (map Version ys)"
    and s1: "sorts_by_version rt1" and s2: "sorts_by_version rt2"
  shows "sort_Slice (pdqsort rt1) (\<lambda>a b. Version a > Version b) xs
       = sort_Slice (pdqsort rt2) (\<lambda>a b. Version a > Version b) ys"
    (is "?xs = ?ys")
proof (rule sorted_descending_unique[where f = Version])
  show "mset ?xs = mset ?ys"
    using assms(1) by (simp add: mset_sort_Slice_descending[OF s1] mset_sort_Slice_descending[OF s2])
  have "mset (map Version ?xs) = mset (map Version ys)"
    using assms(1) by (simp add: mset_sort_Slice_descending[OF s1])
  then show "distinct (map Version ?xs)"
    using assms(2) by (metis mset_eq_imp_distinct_iff)
  show "sorted_wrt (\<lambda>a b. Version a \<ge> Version b) ?xs"
    by (rule sort_Slice_descending[OF s1])
  show "sorted_wrt (\<lambda>a b. Version a \<ge> Version b) ?ys"
    by (rule sort_Slice_descending[OF s2])
qed

lemma twin_loads:
  "loadMigrations sample_runtime twin_directory = Inr [twin_a, twin_b]"
  "loadMigrations reversing_runtime twin_directory = Inr [twin_b, twin_a]"
  by code_simp+

lemma twin_runs:
  "schema (snd (migrateUp sample_driver [twin_a, twin_b] fresh_world)) = [''do m/1_a.up.sql'']"
  "schema (snd (migrateUp sample_driver [twin_b, twin_a] fresh_world)) = [''do m/1_b.up.sql'']"
  "exec_bodies (calls (snd (migrateUp sample_driver [twin_a, twin_b] fresh_world))) = [''do m/1_a.up.sql'', ''do m/1_b.up.sql'']"
  "exec_bodies (calls (snd (migrateUp sample_driver [twin_b, twin_a] fresh_world))) = [''do m/1_b.up.sql'', ''do m/1_a.up.sql'']"
  by code_simp+


lemma twin_plans_differ:
  "map ident (up_plan [] [twin_a, twin_b]) \<noteq> map ident (up_plan [] [twin_b, twin_a])"
  by code_simp

lemma digit_values:
  "digit 0 = CHR ''0''" "digit 1 = CHR ''1''" "digit 2 = CHR ''2''" "digit 3 = CHR ''3''"
  "digit 4 = CHR ''4''" "digit 5 = CHR ''5''" "digit 6 = CHR ''6''" "digit 7 = CHR ''7''"
  "digit 8 = CHR ''8''" "digit 9 = CHR ''9''" "digit (Suc 0) = CHR ''1''"
  by code_simp+

lemma digit_in_digits: "n < 10 \<Longrightarrow> digit n \<in> set ''0123456789''"
proof -
  assume "n < 10"
  then have "n \<in> {0, 1, 2, 3, 4, 5, 6, 7, 8, 9}" by auto
  then show ?thesis by (auto simp: digit_values)
qed

lemma of_char_digit: "n < 10 \<Longrightarrow> of_char (digit n) = 48 + n"
  by (simp add: digit_def)

lemma digit_less_iff: "a < 10 \<Longrightarrow> b < 10 \<Longrightarrow> digit a < digit b \<longleftrightarrow> a < b"
  by (simp add: less_char_def of_char_digit)

lemma digit_eq_iff: "a < 10 \<Longrightarrow> b < 10 \<Longrightarrow> digit a = digit b \<longleftrightarrow> a = b"
  by (metis digit_less_iff less_irrefl linorder_neqE_nat)

lemma decimal_nonempty: "decimal n \<noteq> []"
  by (subst decimal.simps) simp

lemma set_decimal: "set (decimal n) \<subseteq> set ''0123456789''"
proof (induction n rule: decimal.induct)
  case (1 n)
  show ?case
  proof (cases "n < 10")
    case True
    then show ?thesis using digit_in_digits[of n] by (subst decimal.simps) simp
  next
    case False
    have "n mod 10 < 10" by simp
    from digit_in_digits[OF this] 1[OF False] False show ?thesis
      by (subst decimal.simps) simp
  qed
qed

lemma zero_padded_one: "n < 10 \<Longrightarrow> zero_padded (Suc 0) n = [digit n]"
  by (simp add: zero_padded_def decimal.simps[of n])

lemma zero_padded_Suc:
  assumes "0 < w"
  shows "zero_padded (Suc w) n = zero_padded w (n div 10) @ [digit (n mod 10)]"
proof (cases "n < 10")
  case True
  then have d: "decimal n = [digit n]" "decimal (n div 10) = [CHR ''0'']"
    by (simp_all add: decimal.simps[of n] decimal.simps[of 0] digit_values)
  from assms obtain k where k: "w = Suc k" by (cases w) auto
  have "replicate k CHR ''0'' @ [CHR ''0''] = replicate (Suc k) CHR ''0''"
    by (simp add: replicate_append_same)
  with True d k show ?thesis by (simp add: zero_padded_def)
next
  case False
  then have d: "decimal n = decimal (n div 10) @ [digit (n mod 10)]"
    by (subst decimal.simps) simp
  show ?thesis by (simp add: zero_padded_def d)
qed

lemma length_zero_padded: "0 < w \<Longrightarrow> n < (10::nat) ^ w \<Longrightarrow> length (zero_padded w n) = w"
proof (induction w arbitrary: n)
  case 0
  then show ?case by simp
next
  case (Suc w)
  show ?case
  proof (cases "w = 0")
    case True
    with Suc.prems show ?thesis by (simp add: zero_padded_one)
  next
    case False
    from Suc.prems have "n div 10 < (10::nat) ^ w" by (simp add: less_mult_imp_div_less mult.commute)
    with Suc.IH[of "n div 10"] False show ?thesis by (simp add: zero_padded_Suc)
  qed
qed

lemma set_zero_padded: "set (zero_padded w n) \<subseteq> set ''0123456789''"
  using set_decimal[of n] by (auto simp: zero_padded_def)

lemma less_append_same_length:
  fixes xs ys :: "'a::linorder list"
  shows "length xs = length ys \<Longrightarrow> xs @ u < ys @ v \<longleftrightarrow> xs < ys \<or> (xs = ys \<and> u < v)"
proof (induction xs ys rule: list_induct2')
  case 1
  then show ?case by simp
next
  case (2 x xs)
  then show ?case by simp
next
  case (3 y ys)
  then show ?case by simp
next
  case (4 x xs y ys)
  then show ?case by auto
qed

lemma quotient_remainder_less_iff:
  fixes qa ra qb rb :: nat
  assumes "ra < 10" "rb < 10"
  shows "10 * qa + ra < 10 * qb + rb \<longleftrightarrow> qa < qb \<or> (qa = qb \<and> ra < rb)"
  using assms by arith

lemma div_mod_less_iff:
  fixes a b :: nat
  shows "a < b \<longleftrightarrow> a div 10 < b div 10 \<or> (a div 10 = b div 10 \<and> a mod 10 < b mod 10)"
proof -
  have "a < b \<longleftrightarrow> 10 * (a div 10) + a mod 10 < 10 * (b div 10) + b mod 10"
    by (simp only: mult_div_mod_eq)
  also have "\<dots> \<longleftrightarrow> a div 10 < b div 10 \<or> (a div 10 = b div 10 \<and> a mod 10 < b mod 10)"
    by (rule quotient_remainder_less_iff) simp_all
  finally show ?thesis .
qed

lemma zero_padded_less_iff:
  "0 < w \<Longrightarrow> a < (10::nat) ^ w \<Longrightarrow> b < (10::nat) ^ w \<Longrightarrow>
     zero_padded w a < zero_padded w b \<longleftrightarrow> a < b"
proof (induction w arbitrary: a b)
  case 0
  then show ?case by simp
next
  case (Suc w)
  show ?case
  proof (cases "w = 0")
    case True
    with Suc.prems show ?thesis by (simp add: zero_padded_one digit_less_iff)
  next
    case False
    let ?a = "a div 10" and ?b = "b div 10"
    from Suc.prems have ab: "?a < (10::nat) ^ w" "?b < (10::nat) ^ w"
      by (simp_all add: less_mult_imp_div_less mult.commute)
    have len: "length (zero_padded w ?a) = length (zero_padded w ?b)"
      using False ab by (simp add: length_zero_padded)
    have lt: "zero_padded w x < zero_padded w y \<longleftrightarrow> x < y" if "x < (10::nat) ^ w" "y < (10::nat) ^ w" for x y
      using Suc.IH[of x y] False that by simp
    have eq: "zero_padded w ?a = zero_padded w ?b \<longleftrightarrow> ?a = ?b"
    proof
      assume e: "zero_padded w ?a = zero_padded w ?b"
      show "?a = ?b"
      proof (rule ccontr)
        assume "?a \<noteq> ?b"
        then consider "?a < ?b" | "?b < ?a" by arith
        then show False
        proof cases
          case 1
          with lt[OF ab] have "zero_padded w ?a < zero_padded w ?b" by simp
          with e show False by simp
        next
          case 2
          with lt[OF ab(2) ab(1)] have "zero_padded w ?b < zero_padded w ?a" by simp
          with e show False by simp
        qed
      qed
    next
      assume "?a = ?b"
      then show "zero_padded w ?a = zero_padded w ?b" by simp
    qed
    have "zero_padded (Suc w) a < zero_padded (Suc w) b \<longleftrightarrow>
        zero_padded w ?a < zero_padded w ?b
        \<or> (zero_padded w ?a = zero_padded w ?b \<and> digit (a mod 10) < digit (b mod 10))"
      using False by (simp add: zero_padded_Suc less_append_same_length[OF len])
    also have "\<dots> \<longleftrightarrow> ?a < ?b \<or> (?a = ?b \<and> a mod 10 < b mod 10)"
      by (simp add: lt[OF ab] eq digit_less_iff)
    also have "\<dots> \<longleftrightarrow> a < b" by (rule div_mod_less_iff[symmetric])
    finally show ?thesis .
  qed
qed

lemma zero_padded_eq_iff:
  assumes "0 < w" "a < (10::nat) ^ w" "b < (10::nat) ^ w"
  shows "zero_padded w a = zero_padded w b \<longleftrightarrow> a = b"
proof
  assume e: "zero_padded w a = zero_padded w b"
  show "a = b"
  proof (rule ccontr)
    assume "a \<noteq> b"
    then consider "a < b" | "b < a" by arith
    then show False
    proof cases
      case 1
      with zero_padded_less_iff[OF assms] e show False by simp
    next
      case 2
      with zero_padded_less_iff[OF assms(1) assms(3) assms(2)] e show False by simp
    qed
  qed
next
  assume "a = b"
  then show "zero_padded w a = zero_padded w b" by simp
qed

lemma field_less_iff:
  assumes "0 < w" "a < (10::nat) ^ w" "b < (10::nat) ^ w"
  shows "zero_padded w a @ u < zero_padded w b @ v \<longleftrightarrow> a < b \<or> (a = b \<and> u < v)"
proof -
  have len: "length (zero_padded w a) = length (zero_padded w b)"
    using assms by (simp add: length_zero_padded)
  show ?thesis
    unfolding less_append_same_length[OF len] zero_padded_less_iff[OF assms]
      zero_padded_eq_iff[OF assms] ..
qed

lemma appendInt_nonneg: "0 \<le> x \<Longrightarrow> appendInt x w = zero_padded w (nat x)"
  by (simp add: appendInt_def)

lemma Format_fields:
  assumes "four_digit_clock t"
  shows "Format_20060102150405 t =
     zero_padded 4 (nat (Year t)) @ zero_padded 2 (nat (Month t)) @ zero_padded 2 (nat (Day t)) @
     zero_padded 2 (nat (Hour t)) @ zero_padded 2 (nat (Minute t)) @ zero_padded 2 (nat (Second t))"
  using assms by (simp add: Format_20060102150405_def four_digit_clock_def appendInt_nonneg)

lemma length_Format:
  assumes "four_digit_clock t"
  shows "length (Format_20060102150405 t) = 14"
proof -
  have "nat (Year t) < 10 ^ 4" "nat (Month t) < 10 ^ 2" "nat (Day t) < 10 ^ 2"
    "nat (Hour t) < 10 ^ 2" "nat (Minute t) < 10 ^ 2" "nat (Second t) < 10 ^ 2"
    using assms by (auto simp: four_digit_clock_def)
  then show ?thesis
    unfolding Format_fields[OF assms] by (simp only: length_append length_zero_padded zero_less_numeral)
qed

lemma set_Format:
  assumes "four_digit_clock t"
  shows "set (Format_20060102150405 t) \<subseteq> set ''0123456789''"
  unfolding Format_fields[OF assms] set_append using set_zero_padded by blast

lemma Format_less:
  assumes s: "four_digit_clock s" and t: "four_digit_clock t" and e: "earlier s t"
  shows "Format_20060102150405 s @ u < Format_20060102150405 t @ v"
proof -
  have bs: "nat (Year s) < 10 ^ 4" "nat (Month s) < 10 ^ 2" "nat (Day s) < 10 ^ 2"
    "nat (Hour s) < 10 ^ 2" "nat (Minute s) < 10 ^ 2" "nat (Second s) < 10 ^ 2"
    using s by (auto simp: four_digit_clock_def)
  have bt: "nat (Year t) < 10 ^ 4" "nat (Month t) < 10 ^ 2" "nat (Day t) < 10 ^ 2"
    "nat (Hour t) < 10 ^ 2" "nat (Minute t) < 10 ^ 2" "nat (Second t) < 10 ^ 2"
    using t by (auto simp: four_digit_clock_def)
  have nn: "0 \<le> Year s" "0 \<le> Month s" "0 \<le> Day s" "0 \<le> Hour s" "0 \<le> Minute s" "0 \<le> Second s"
    "0 \<le> Year t" "0 \<le> Month t" "0 \<le> Day t" "0 \<le> Hour t" "0 \<le> Minute t" "0 \<le> Second t"
    using s t by (auto simp: four_digit_clock_def)
  have "[int (nat (Year s)), int (nat (Month s)), int (nat (Day s)), int (nat (Hour s)),
         int (nat (Minute s)), int (nat (Second s))]
      < [int (nat (Year t)), int (nat (Month t)), int (nat (Day t)), int (nat (Hour t)),
         int (nat (Minute t)), int (nat (Second t))]"
    using e nn by (simp add: earlier_def)
  then have "nat (Year s) < nat (Year t) \<or> (nat (Year s) = nat (Year t) \<and>
        (nat (Month s) < nat (Month t) \<or> (nat (Month s) = nat (Month t) \<and>
        (nat (Day s) < nat (Day t) \<or> (nat (Day s) = nat (Day t) \<and>
        (nat (Hour s) < nat (Hour t) \<or> (nat (Hour s) = nat (Hour t) \<and>
        (nat (Minute s) < nat (Minute t) \<or> (nat (Minute s) = nat (Minute t) \<and>
        (nat (Second s) < nat (Second t)))))))))))"
    by (simp only: Cons_less_Cons of_nat_less_iff of_nat_eq_iff not_less_Nil simp_thms)
  then show ?thesis
    unfolding Format_fields[OF s] Format_fields[OF t] append_assoc
    by (simp only: field_less_iff[OF _ bs(1) bt(1)] field_less_iff[OF _ bs(2) bt(2)]
          field_less_iff[OF _ bs(3) bt(3)] field_less_iff[OF _ bs(4) bt(4)]
          field_less_iff[OF _ bs(5) bt(5)] field_less_iff[OF _ bs(6) bt(6)]
          zero_less_numeral simp_thms)
       blast
qed


lemma applyUp_no_fault:
  "\<forall>n. fault d n = None \<Longrightarrow> run_sql d (UpSQL m) (schema w) = Inr s \<Longrightarrow>
     Version m \<notin> set (map row_version (migration_log w)) \<Longrightarrow>
     fst (applyUp d m w) = None"
  by (simp add: applyUp_def db_defs)



lemma migrateUp_loop_succeeds:
  "\<forall>n. fault d n = None \<Longrightarrow>
   run_all_sql d (map UpSQL (up_plan applied ms)) (schema w) = Inr s \<Longrightarrow>
   distinct (map Version (up_plan applied ms)) \<Longrightarrow>
   set (map Version (up_plan applied ms)) \<inter> set (map row_version (migration_log w)) = {} \<Longrightarrow>
     fst (migrateUp_loop d (make_appliedMap applied) ms w) = None"
proof (induction ms arbitrary: w)
  case Nil
  then show ?case by simp
next
  case (Cons m ms)
  show ?case
  proof (cases "Version m \<in> set applied")
    case True
    with Cons.prems have
      "run_all_sql d (map UpSQL (up_plan applied ms))
         (schema (Printf (AlreadyApplied (Version m) (Name m)) w)) = Inr s"
      "distinct (map Version (up_plan applied ms))"
      "set (map Version (up_plan applied ms))
         \<inter> set (map row_version (migration_log (Printf (AlreadyApplied (Version m) (Name m)) w))) = {}"
      by (simp_all add: up_plan_Cons Printf_def)
    from Cons.IH[OF Cons.prems(1) this] True show ?thesis
      by (simp add: index_make_appliedMap)
  next
    case False
    with Cons.prems(2) obtain s1 where b: "run_sql d (UpSQL m) (schema w) = Inr s1"
      and rest: "run_all_sql d (map UpSQL (up_plan applied ms)) s1 = Inr s"
      by (auto simp: up_plan_Cons split: sum.splits)
    from False Cons.prems(3,4) have fresh: "Version m \<notin> set (map row_version (migration_log w))"
      and d': "distinct (map Version (up_plan applied ms))"
      and notin: "Version m \<notin> set (map Version (up_plan applied ms))"
      and disj: "set (map Version (up_plan applied ms)) \<inter> set (map row_version (migration_log w)) = {}"
      by (auto simp: up_plan_Cons)
    obtain r1 w1 where a: "applyUp d m w = (r1, w1)" by (cases "applyUp d m w")
    with applyUp_no_fault[OF Cons.prems(1) b fresh] have r1: "r1 = None" by simp
    from applyUp_success[OF a[unfolded r1]] b obtain r0 where w1: "schema w1 = s1"
      "migration_log w1 = migration_log w @ [r0]" "row_version r0 = Version m"
      by auto
    have "set (map Version (up_plan applied ms)) \<inter> set (map row_version (migration_log w1)) = {}"
      using disj notin w1 by auto
    moreover have "run_all_sql d (map UpSQL (up_plan applied ms)) (schema w1) = Inr s"
      using rest w1 by simp
    ultimately have "fst (migrateUp_loop d (make_appliedMap applied) ms w1) = None"
      using Cons.IH[OF Cons.prems(1) _ d'] by blast
    with False a r1 show ?thesis by (simp add: index_make_appliedMap)
  qed
qed

lemma after_first_up_run:
  "migrateUp sample_driver sample_migrations fresh_world = (None, after_first_up)"
proof -
  have "fst (migrateUp sample_driver sample_migrations fresh_world) = None"
    by code_simp
  then show ?thesis unfolding after_first_up_def by (metis prod.collapse)
qed

lemma after_first_up_facts:
  "map log_entry (migration_log after_first_up) = [(''1'', ''a'', ''up''), (''2'', ''b'', ''up'')]"
  "exec_bodies (calls after_first_up) = [''do m/1_a.up.sql'', ''do m/2_b.up.sql'']"
  by code_simp+

lemma second_run_cut_facts:
  "fst (getAppliedMigrations cutting_driver after_first_up) = Inr [''1'']"
  "fst (migrateUp cutting_driver sample_migrations after_first_up)
        = Some ''failed to record migration 2: Duplicate entry for key version: 2''"
  "calls (snd (migrateUp cutting_driver sample_migrations after_first_up))
        = calls after_first_up
            @ [CallQuery, CallBegin, CallExec ''do m/2_b.up.sql'', CallInsert ''2'' ''b'' ''up'',
               CallRollback]"
  "exec_bodies (calls (snd (migrateUp cutting_driver sample_migrations after_first_up)))
        = [''do m/1_a.up.sql'', ''do m/2_b.up.sql'', ''do m/2_b.up.sql'']"
  "stdout (snd (migrateUp cutting_driver sample_migrations after_first_up))
        = stdout after_first_up @ [AlreadyApplied ''1'' ''a'', Applying ''2'' ''b'']"
  by code_simp+

lemma migrateUp_second_run_idle_when_read_whole:
  assumes "migrateUp d ms w = (None, w1)"
    and complete: "rows_read d' (length (calls w1)) = None"
  shows "migrateUp d' ms w1 =
           (case fault d' (length (calls w1)) of
              Some err \<Rightarrow> (Some (''failed to get applied migrations: '' @ err),
                           w1\<lparr>calls := calls w1 @ [CallQuery]\<rparr>)
            | None \<Rightarrow> (None,
                       w1\<lparr>calls := calls w1 @ [CallQuery],
                          stdout := stdout w1 @
                            map (\<lambda>m. AlreadyApplied (Version m) (Name m)) ms\<rparr>))
       \<and> exec_bodies (calls (snd (migrateUp d' ms w1))) = exec_bodies (calls w1)
       \<and> inserted (calls (snd (migrateUp d' ms w1))) = inserted (calls w1)
       \<and> schema (snd (migrateUp d' ms w1)) = schema w1
       \<and> migration_log (snd (migrateUp d' ms w1)) = migration_log w1"
proof -
  have eq: "migrateUp d' ms w1 =
           (case fault d' (length (calls w1)) of
              Some err \<Rightarrow> (Some (''failed to get applied migrations: '' @ err),
                           w1\<lparr>calls := calls w1 @ [CallQuery]\<rparr>)
            | None \<Rightarrow> (None,
                       w1\<lparr>calls := calls w1 @ [CallQuery],
                          stdout := stdout w1 @
                            map (\<lambda>m. AlreadyApplied (Version m) (Name m)) ms\<rparr>))"
  proof (cases "fault d' (length (calls w1))")
    case (Some err)
    then show ?thesis by (simp add: migrateUp_def getAppliedMigrations_def issue_def)
  next
    case None
    then obtain applied where q: "getAppliedMigrations d' w1 = (Inr applied, issue CallQuery w1)"
      by (simp add: getAppliedMigrations_def)
    have "\<forall>m\<in>set ms. Version m \<in> set applied"
      using migrateUp_success_all_recorded[OF assms(1)] getAppliedMigrations_mem[OF q complete]
      by blast
    then have "migrateUp_loop d' (make_appliedMap applied) ms (issue CallQuery w1) =
       (None, (issue CallQuery w1)\<lparr>stdout := stdout (issue CallQuery w1) @
                            map (\<lambda>m. AlreadyApplied (Version m) (Name m)) ms\<rparr>)"
      by (rule migrateUp_loop_all_applied)
    then have "migrateUp d' ms w1 =
       (None, (issue CallQuery w1)\<lparr>stdout := stdout (issue CallQuery w1) @
                            map (\<lambda>m. AlreadyApplied (Version m) (Name m)) ms\<rparr>)"
      using q by (simp add: migrateUp_def)
    then show ?thesis using None by (simp add: issue_def)
  qed
  show ?thesis
    unfolding eq by (simp split: option.splits)
qed

lemma getAppliedMigrations_whole_read:
  assumes "getAppliedMigrations d w = (Inr applied, wq)"
    and complete: "rows_read d (length (calls w)) = None"
  shows "(\<exists>rows. applied = map row_version rows
            \<and> mset rows = mset (filter (\<lambda>r. row_direction r = ''up'') (migration_log w))
            \<and> sorted (map row_applied_at rows))
       \<and> (\<forall>v. index_map (make_appliedMap applied) v
              \<longleftrightarrow> (\<exists>r\<in>set (migration_log w). row_version r = v \<and> row_direction r = ''up''))
       \<and> (\<forall>v. contains applied v
              \<longleftrightarrow> (\<exists>r\<in>set (migration_log w). row_version r = v \<and> row_direction r = ''up''))"
proof -
  let ?rows = "sort_key row_applied_at (filter (\<lambda>r. row_direction r = ''up'') (migration_log w))"
  have a: "applied = map row_version ?rows"
    using getAppliedMigrations_cases(2)[OF assms(1)] complete by (simp add: select_applied_def)
  have 1: "\<exists>rows. applied = map row_version rows
            \<and> mset rows = mset (filter (\<lambda>r. row_direction r = ''up'') (migration_log w))
            \<and> sorted (map row_applied_at rows)"
    using a by (intro exI[of _ ?rows]) simp
  have s: "v \<in> set applied \<longleftrightarrow> (\<exists>r\<in>set (migration_log w). row_version r = v \<and> row_direction r = ''up'')" for v
    using getAppliedMigrations_set[OF assms] by auto
  from 1 s show ?thesis by (simp add: index_make_appliedMap contains_iff)
qed

lemma shuffled_load: "loadMigrations reversing_runtime shuffled_directory = Inr sample_migrations"
  by code_simp

lemma runtime_range_orders:
  "\<forall>mf::migrationFiles. mset (range_order sample_runtime mf) = mset mf"
  "\<forall>mf::migrationFiles. mset (range_order reversing_runtime mf) = mset mf"
  by (simp_all add: sample_runtime_def reversing_runtime_def)

lemma sample_scaffold_ok: "fst (createMigration sample_os ''m'' ''foo'' empty_disk) = None"
  by code_simp

lemma sample_timestamp: "Format_20060102150405 (Now sample_os) = ''20240102030405''"
  by code_simp

lemma sample_clock: "four_digit_clock (Now sample_os)"
  by (simp add: four_digit_clock_def sample_os_def)

lemma between_prefix:
  fixes p :: "'a::linorder list"
  shows "p @ a < s \<Longrightarrow> s < p @ b \<Longrightarrow> prefix p s"
proof (induction p arbitrary: s)
  case Nil
  then show ?case by simp
next
  case (Cons x p)
  then show ?case by (cases s) (auto split: if_splits)
qed

lemma createMigration_success:
  assumes "MkdirAll sys dir = None"
    and "WriteFile sys (Join sys dir (up_file_name (Format_20060102150405 (Now sys)) name)) = None"
    and "WriteFile sys (Join sys dir (down_file_name (Format_20060102150405 (Now sys)) name)) = None"
  shows "createMigration sys dir name dk =
     (None,
      dk\<lparr>directories := insert dir (directories dk),
         files := (files dk)
           (Join sys dir (up_file_name (Format_20060102150405 (Now sys)) name)
              \<mapsto> upContent (Format_20060102150405 (Now sys)) name,
            Join sys dir (down_file_name (Format_20060102150405 (Now sys)) name)
              \<mapsto> downContent (Format_20060102150405 (Now sys)) name),
         printed := printed dk @
           [CreatedFiles,
            UpLine (Join sys dir (up_file_name (Format_20060102150405 (Now sys)) name)),
            DownLine (Join sys dir (down_file_name (Format_20060102150405 (Now sys)) name))]\<rparr>)"
  using assms by (simp add: createMigration_def Let_def)

lemma decimal_units: "decimal 0 = ''0''" "decimal (Suc 0) = ''1''"
  by (subst decimal.simps, simp add: digit_values)+

lemma decimal_10000: "decimal 10000 = ''10000''"
proof -
  have 2: "decimal 10 = ''10''" by (subst decimal.simps) (simp add: decimal_units digit_values)
  have 3: "decimal 100 = ''100''" by (subst decimal.simps) (simp add: 2 digit_values)
  have 4: "decimal 1000 = ''1000''" by (subst decimal.simps) (simp add: 3 digit_values)
  show "decimal 10000 = ''10000''" by (subst decimal.simps) (simp add: 4 digit_values)
qed

lemma late_timestamp: "Format_20060102150405 (Now late_os) = ''100000101000000''"
  by (simp add: Format_20060102150405_def appendInt_def zero_padded_def late_os_def
        decimal_units decimal_10000)

lemma pair_names:
  "ts @ ''_'' @ name @ ''.down.sql'' < ts @ ''_'' @ name @ ''.up.sql''"
  "ts @ ''_'' @ name @ ''.down.sql'' < s \<Longrightarrow> s < ts @ ''_'' @ name @ ''.up.sql'' \<Longrightarrow>
     prefix (ts @ ''_'' @ name @ ''.'') s"
proof -
  let ?p = "ts @ ''_'' @ name @ ''.''"
  have d: "ts @ ''_'' @ name @ ''.down.sql'' = ?p @ ''down.sql''"
    and u: "ts @ ''_'' @ name @ ''.up.sql'' = ?p @ ''up.sql''" by simp_all
  have "''down.sql'' < ''up.sql''" by (simp add: less_char_def)
  then show "ts @ ''_'' @ name @ ''.down.sql'' < ts @ ''_'' @ name @ ''.up.sql''"
    unfolding d u by (simp only: less_append_same_length[OF refl] simp_thms)
  show "prefix ?p s"
    if "ts @ ''_'' @ name @ ''.down.sql'' < s" "s < ts @ ''_'' @ name @ ''.up.sql''"
    using that unfolding d u by (rule between_prefix)
qed


section \<open>The claims\<close>

text \<open>
  C1. When \<open>db.Begin\<close> has succeeded for a pending migration \<open>m\<close> and then either the
  execution of its up body or the write of its log entry fails, \<open>migrateUp\<close> returns at
  once with an error whose message carries the version of \<open>m\<close>. The committed ledger then
  holds, beyond what it held before the run, exactly one \<open>up\<close> entry for each pending
  migration before \<open>m\<close>, and the committed schema is the result of their bodies alone:
  \<open>m\<close> itself left neither an entry nor a schema change, its transaction ending in a
  rollback. Nothing is printed or sent to the database for a migration after \<open>m\<close>:
  the whole outcome is the same as if the list ended with \<open>m\<close>.
\<close>

theorem migrateUp_halts_on_failure:
  assumes q: "getAppliedMigrations d w = (Inr applied, wq)"
    and pre: "migrateUp_loop d (make_appliedMap applied) before wq = (None, w1)"
    and pend: "Version m \<notin> set applied"
    and beg: "db_Begin d (Printf (Applying (Version m) (Name m)) w1) = (Inr t, w2)"
    and fail: "(tx_Exec d (UpSQL m) t w2 = (Some err, t3, w3) \<and>
                 msg = ''failed to execute migration '' @ Version m @ '': '' @ err)
             \<or> (\<exists>t' w'. tx_Exec d (UpSQL m) t w2 = (None, t', w') \<and>
                   recordMigration d t' (Version m) (Name m) ''up'' w' = (Some err, t3, w3) \<and>
                   msg = ''failed to record migration '' @ Version m @ '': '' @ err)"
  shows "\<exists>wf. migrateUp d (before @ m # after) w = (Some msg, wf)
           \<and> map log_entry (migration_log wf) =
               map log_entry (migration_log w) @ map up_entry (up_plan applied before)
           \<and> run_all_sql d (map UpSQL (up_plan applied before)) (schema w) = Inr (schema wf)
           \<and> stdout wf = stdout w @ up_report applied before @ [Applying (Version m) (Name m)]
           \<and> (calls wf = calls w @ CallQuery # concat (map up_calls (up_plan applied before))
                             @ [CallBegin, CallExec (UpSQL m), CallRollback]
              \<or> calls wf = calls w @ CallQuery # concat (map up_calls (up_plan applied before))
                             @ [CallBegin, CallExec (UpSQL m),
                                CallInsert (Version m) (Name m) ''up'', CallRollback])
           \<and> migrateUp d (before @ m # after) w = migrateUp d (before @ [m]) w"
proof -
  let ?am = "make_appliedMap applied"
  have notin: "\<not> index_map ?am (Version m)"
    using pend by (simp add: index_make_appliedMap)
  have step: "applyUp d m w1 = (Some msg, tx_Rollback t3 w3)"
    using beg fail by (auto simp: applyUp_def)
  have run: "migrateUp d (before @ m # rest) w = (Some msg, tx_Rollback t3 w3)" for rest
    using q pre notin step by (simp add: migrateUp_def migrateUp_loop_append)
  have wq: "wq = issue CallQuery w"
    using q by (rule getAppliedMigrations_world)
  have same: "schema (tx_Rollback t3 w3) = schema w1" "migration_log (tx_Rollback t3 w3) = migration_log w1"
    using applyUp_failure_contents[OF step] by simp_all
  have log: "map log_entry (migration_log w1) =
      map log_entry (migration_log w) @ map up_entry (up_plan applied before)"
    using migrateUp_loop_success_log[OF pre] by (simp add: up_plan_index wq issue_def)
  have sch: "run_all_sql d (map UpSQL (up_plan applied before)) (schema w) = Inr (schema w1)"
    using migrateUp_loop_success_schema[OF pre] by (simp add: up_plan_index wq issue_def)
  have tr: "stdout w1 = stdout w @ up_report applied before"
      "calls w1 = calls w @ CallQuery # concat (map up_calls (up_plan applied before))"
    using migrateUp_loop_success_trace[OF pre] by (simp_all add: wq issue_def)
  have out: "stdout (tx_Rollback t3 w3) = stdout w1 @ [Applying (Version m) (Name m)]"
    using applyUp_failure_trace[OF step] by simp
  have cs: "calls (tx_Rollback t3 w3) = calls w1 @ [CallBegin, CallExec (UpSQL m), CallRollback]
      \<or> calls (tx_Rollback t3 w3) = calls w1 @ [CallBegin, CallExec (UpSQL m),
                                        CallInsert (Version m) (Name m) ''up'', CallRollback]"
    using beg fail by (auto simp: db_defs split: option.splits sum.splits if_splits)
  show ?thesis
    using run[of after] run[of "[]"] same log sch out cs tr by simp
qed

theorem migrateUp_halts_on_failure_witness:
  "\<exists>wf. migrateUp sample_driver
          ([sample_migration ''1'' ''one'' ''CREATE a''] @ sample_migration ''2'' ''two'' ''bad''
             # [sample_migration ''3'' ''three'' ''CREATE c'']) fresh_world
        = (Some ''failed to execute migration 2: syntax error'', wf)
      \<and> map log_entry (migration_log wf) = [(''1'', ''one'', ''up'')]
      \<and> schema wf = [''CREATE a'']
      \<and> exec_bodies (calls wf) = [''CREATE a'', ''bad'']
      \<and> announced_up (stdout wf) = [(''1'', ''one''), (''2'', ''two'')]"
proof -
  let ?d = sample_driver and ?w = "fresh_world"
  let ?m1 = "sample_migration ''1'' ''one'' ''CREATE a''"
  let ?m2 = "sample_migration ''2'' ''two'' ''bad''"
  let ?m3 = "sample_migration ''3'' ''three'' ''CREATE c''"
  obtain w1 where l: "migrateUp_loop ?d (make_appliedMap []) [?m1] (issue CallQuery ?w) = (None, w1)"
    using sample_first_migration by (cases "migrateUp_loop ?d (make_appliedMap []) [?m1] (issue CallQuery ?w)") simp
  have b: "db_Begin ?d (Printf (Applying (Version ?m2) (Name ?m2)) w1) = (Inr \<lparr>tx_schema = schema w1, tx_log = migration_log w1\<rparr>, issue CallBegin (Printf (Applying (Version ?m2) (Name ?m2)) w1))"
    (is "_ = (Inr ?t, ?w2)")
    by (simp add: db_Begin_def sample_driver_def Printf_def)
  have e: "tx_Exec ?d (UpSQL ?m2) ?t ?w2 = (Some ''syntax error'', ?t, issue (CallExec (UpSQL ?m2)) ?w2)"
    by (simp add: tx_Exec_def sample_driver_def sample_migration_def)
  have s: "''failed to execute migration 2: syntax error'' = ''failed to execute migration '' @ Version ?m2 @ '': '' @ ''syntax error''"
    by (simp add: sample_migration_def)
  have p: "Version ?m2 \<notin> set []" by simp
  note H = migrateUp_halts_on_failure[OF sample_query l p b disjI1[OF conjI[OF e s]], of "[?m3]"]
  then obtain wf where A: "migrateUp ?d ([?m1] @ ?m2 # [?m3]) ?w = (Some ''failed to execute migration 2: syntax error'', wf)
           \<and> map log_entry (migration_log wf) =
               map log_entry (migration_log ?w) @ map up_entry (up_plan [] [?m1])
           \<and> run_all_sql ?d (map UpSQL (up_plan [] [?m1])) (schema ?w) = Inr (schema wf)
           \<and> stdout wf = stdout ?w @ up_report [] [?m1] @ [Applying (Version ?m2) (Name ?m2)]
           \<and> (calls wf = calls ?w @ CallQuery # concat (map up_calls (up_plan [] [?m1]))
                             @ [CallBegin, CallExec (UpSQL ?m2), CallRollback]
              \<or> calls wf = calls ?w @ CallQuery # concat (map up_calls (up_plan [] [?m1]))
                             @ [CallBegin, CallExec (UpSQL ?m2),
                                CallInsert (Version ?m2) (Name ?m2) ''up'', CallRollback])
           \<and> migrateUp ?d ([?m1] @ ?m2 # [?m3]) ?w = migrateUp ?d ([?m1] @ [?m2]) ?w" ..
  have 0: "migrateUp ?d ([?m1] @ ?m2 # [?m3]) ?w = (Some ''failed to execute migration 2: syntax error'', wf)"
    using A by (rule conjunct1)
  have 1: "map log_entry (migration_log wf) = [(''1'', ''one'', ''up'')]"
    using A by (simp add: fresh_world_def up_plan_def up_entry_def sample_migration_def)
  have 2: "schema wf = [''CREATE a'']"
    using A by (simp add: fresh_world_def up_plan_def sample_driver_def sample_migration_def)
  have 3: "exec_bodies (calls wf) = [''CREATE a'', ''bad'']"
    using A by (auto simp: exec_bodies_def sample_migration_def fresh_world_def up_plan_def up_calls_def)
  have 4: "announced_up (stdout wf) = [(''1'', ''one''), (''2'', ''two'')]"
    using A by (simp add: announced_up_def sample_migration_def fresh_world_def up_report_def)
  from 0 1 2 3 4 show ?thesis by (intro exI[of _ wf] conjI)
qed



text \<open>
  C4. The claim fails on a second run whose read of the applied versions is cut short.
  \<open>getAppliedMigrations\<close> leaves its loop when \<open>rows.Next()\<close> returns false and never
  looks at \<open>rows.Err()\<close>, so it returns the versions read so far as if they were all.
  The first run applies the sample migrations \<open>1\<close> and \<open>2\<close> to the empty database.
  On the second run the connection breaks after the first row of the result set:
  version \<open>2\<close>, committed by the first run, is taken as pending, a transaction is begun,
  its up body is executed again and an insertion of its log entry is attempted, which the
  \<open>UNIQUE\<close> column rejects; the run fails.
\<close>

theorem migrateUp_second_run_repeats_after_cut_read:
  "migrateUp sample_driver sample_migrations fresh_world = (None, after_first_up)
   \<and> map log_entry (migration_log after_first_up) = [(''1'', ''a'', ''up''), (''2'', ''b'', ''up'')]
   \<and> exec_bodies (calls after_first_up) = [''do m/1_a.up.sql'', ''do m/2_b.up.sql'']
   \<and> fst (getAppliedMigrations cutting_driver after_first_up) = Inr [''1'']
   \<and> fst (migrateUp cutting_driver sample_migrations after_first_up)
        = Some ''failed to record migration 2: Duplicate entry for key version: 2''
   \<and> calls (snd (migrateUp cutting_driver sample_migrations after_first_up))
        = calls after_first_up
            @ [CallQuery, CallBegin, CallExec ''do m/2_b.up.sql'', CallInsert ''2'' ''b'' ''up'',
               CallRollback]
   \<and> exec_bodies (calls (snd (migrateUp cutting_driver sample_migrations after_first_up)))
        = [''do m/1_a.up.sql'', ''do m/2_b.up.sql'', ''do m/2_b.up.sql'']
   \<and> stdout (snd (migrateUp cutting_driver sample_migrations after_first_up))
        = stdout after_first_up @ [AlreadyApplied ''1'' ''a'', Applying ''2'' ''b'']"
  using after_first_up_run after_first_up_facts second_run_cut_facts by (intro conjI)

text \<open>
  C9. When the ledger holds at most one row for every version, it still does after
  \<open>migrateUp\<close>, after \<open>migrateDown\<close> and after any sequence of invocations of
  \<open>runMigrations\<close>, whatever the directories, the faults and the outcomes of the steps:
  the \<open>UNIQUE\<close> column rejects a second row, and a rollback deletes rows.
\<close>

theorem one_row_per_version:
  assumes "\<forall>v. length (rows_of v (migration_log w)) \<le> 1"
  shows "(\<forall>v. length (rows_of v (migration_log (run_sequence runs w))) \<le> 1)
       \<and> (\<forall>v. length (rows_of v (migration_log (snd (migrateUp d ms w)))) \<le> 1)
       \<and> (\<forall>v. length (rows_of v (migration_log (snd (migrateDown rt d ms w)))) \<le> 1)"
proof -
  have "distinct (map row_version (migration_log w))"
    by (rule unique_versions_iff[THEN iffD1, OF assms])
  then show ?thesis
    unfolding unique_versions_iff
    by (intro conjI run_sequence_distinct migrateUp_distinct migrateDown_distinct)
qed

theorem one_row_per_version_witness:
  "(\<forall>v. length (rows_of v (migration_log
        (run_sequence [(sample_invocation, ''up''), (sample_invocation, ''down''),
                       (sample_invocation, ''up'')] one_applied_world))) \<le> 1)
   \<and> (\<forall>v. length (rows_of v (migration_log
        (snd (migrateUp sample_driver sample_migrations one_applied_world)))) \<le> 1)
   \<and> (\<forall>v. length (rows_of v (migration_log
        (snd (migrateDown sample_runtime sample_driver sample_migrations one_applied_world)))) \<le> 1)"
proof (rule one_row_per_version)
  show "\<forall>v. length (rows_of v (migration_log one_applied_world)) \<le> 1"
    by (simp add: rows_of_def one_applied_world_def)
qed

text \<open>
  C2, as amended. The ledger is not append-only: a rollback that succeeds deletes the rows
  of the versions it rolled back. After \<open>migrateUp\<close>, \<open>migrateDown\<close> and \<open>migrateUp\<close>
  again, each successful, the rollback having read the result of its query of the applied
  versions to the end and \<open>sort.Slice\<close> sorting, the ledger holds for the version of every
  migration no row after the rollback and exactly one row, of direction \<open>up\<close>, after the
  second application.
\<close>

theorem apply_rollback_reapply_one_row:
  assumes up1: "migrateUp d1 ms w = (None, w1)"
    and down: "migrateDown rt d2 ms w1 = (None, w2)"
    and whole: "rows_read d2 (length (calls w1)) = None"
    and sorts: "sorts_by_version rt"
    and up2: "migrateUp d3 ms w2 = (None, w3)"
    and m: "m \<in> set ms"
  shows "rows_of (Version m) (migration_log w2) = []
       \<and> (\<exists>r. rows_of (Version m) (migration_log w3) = [r] \<and> row_direction r = ''up'')"
proof -
  note rec = migrateUp_success_all_recorded[OF up1 m]
  have gone: "rows_of (Version m) (migration_log w2) = []"
    by (rule migrateDown_success_removed[OF down m rec whole sorts])
  from migrateUp_success_single_row[OF up2 m gone] gone show ?thesis by simp
qed

theorem apply_rollback_reapply_one_row_witness:
  "rows_of ''1'' (migration_log after_down) = []
   \<and> (\<exists>r. rows_of ''1'' (migration_log after_reapply) = [r] \<and> row_direction r = ''up'')"
proof -
  have whole: "rows_read sample_driver (length (calls after_up)) = None"
    by (simp add: sample_driver_def)
  show ?thesis
    using apply_rollback_reapply_one_row[OF after_up_run after_down_run whole
            sample_runtime_sorts(1) after_reapply_run,
            of "sample_migration ''1'' ''one'' ''CREATE a''"]
    by (simp add: single_migration_def sample_migration_def)
qed

text \<open>
  C2, as stated, fails: on the empty database, one migration is applied, rolled back and
  applied again, each run succeeding. The rollback leaves the ledger empty, so the entry of
  the first application was deleted, and in the end the ledger holds one row for the
  version, not three.
\<close>

theorem ledger_append_only_counterexample:
  "migrateUp sample_driver single_migration fresh_world = (None, after_up)
   \<and> migrateDown sample_runtime sample_driver single_migration after_up = (None, after_down)
   \<and> migrateUp sample_driver single_migration after_down = (None, after_reapply)
   \<and> migration_log after_up \<noteq> []
   \<and> migration_log after_down = []
   \<and> \<not> prefix (migration_log after_up) (migration_log after_down)
   \<and> length (rows_of ''1'' (migration_log after_reapply)) \<noteq> 3"
  using after_up_run after_down_run after_reapply_run after_up_nonempty after_logs(2)
    after_reapply_count
  by simp

text \<open>
  C6. The claim fails when the read of the result set is cut short: \<open>getAppliedMigrations\<close>
  leaves its loop when \<open>rows.Next()\<close> returns false and returns what it has appended with
  a nil error, \<open>rows.Err()\<close> never being looked at. The ledger holds an \<open>up\<close> row for
  version \<open>2\<close> and one for version \<open>1\<close>, so the query selects \<open>1\<close> and \<open>2\<close> in order of
  \<open>applied_at\<close>; the connection breaks after the first row, and the function returns the
  list of \<open>1\<close> alone, without an error. Version \<open>2\<close> then does not count as applied, for
  \<open>migrateUp\<close> (the map \<open>appliedMap\<close>) as for \<open>migrateDown\<close> (the function \<open>contains\<close>),
  although the ledger holds an \<open>up\<close> row for it.
\<close>

theorem getAppliedMigrations_returns_part_after_cut_read:
  "select_applied (migration_log mixed_world) = [''1'', ''2'']
   \<and> (''2'', ''b'', ''up'') \<in> set (map log_entry (migration_log mixed_world))
   \<and> getAppliedMigrations cutting_driver mixed_world = (Inr [''1''], issue CallQuery mixed_world)
   \<and> \<not> index_map (make_appliedMap [''1'']) ''2''
   \<and> \<not> contains [''1''] ''2''"
  by (simp add: getAppliedMigrations_def select_applied_def cutting_driver_def mixed_world_def
        log_entry_def index_make_appliedMap contains_iff)

text \<open>
  C5. The claim holds for the code's own reading of its pattern but the code misses a case:
  a file whose middle part is neither \<open>up\<close> nor \<open>down\<close> is not skipped. Alone in the
  directory, \<open>001_init.bak.sql\<close> yields a migration \<open>001\<close>, \<open>init\<close> with both bodies empty;
  and when it cannot be read, \<open>loadMigrations\<close> fails.
\<close>

theorem loadMigrations_keeps_other_suffix:
  "loadMigrations sample_runtime backup_directory =
     Inr [\<lparr>Version = ''001'', Name = ''init'', UpSQL = '''', DownSQL = ''''\<rparr>]
   \<and> loadMigrations sample_runtime locked_backup_directory =
     Inl ''failed to read migration file m/001_init.bak.sql: permission denied''"
  by code_simp

text \<open>
  C7, as amended. When the versions of the discovered migrations are pairwise distinct and
  \<open>sort.Slice\<close> sorts, two runs of \<open>loadMigrations\<close> that discover the same migrations
  return the same list, whatever the directories, the orders in which the scans list the
  files and the orders in which the runtimes range over the map. So the up plan, the whole
  of \<open>migrateUp\<close> and the whole of \<open>migrateDown\<close> on the same database are the same; and
  \<open>migrateDown\<close>, which sorts its argument again, gives the same for every rearrangement
  of the list.
\<close>

theorem plan_deterministic_for_distinct_versions:
  assumes l1: "loadMigrations rt1 dir1 = Inr ms1" and l2: "loadMigrations rt2 dir2 = Inr ms2"
    and same: "mset ms1 = mset ms2"
    and dist: "distinct (map Version ms1)"
    and s1: "sorts_by_version rt1" and s2: "sorts_by_version rt2"
  shows "ms1 = ms2
       \<and> up_plan applied ms1 = up_plan applied ms2
       \<and> migrateUp d ms1 w = migrateUp d ms2 w
       \<and> migrateDown rt1 d ms1 w = migrateDown rt2 d ms2 w
       \<and> (\<forall>xs. mset xs = mset ms1 \<longrightarrow> migrateDown rt2 d xs w = migrateDown rt1 d ms1 w)"
proof -
  have o1: "sorted (map Version ms1)" using s1 l1 by (rule loadMigrations_sorted)
  have o2: "sorted (map Version ms2)" using s2 l2 by (rule loadMigrations_sorted)
  have eq: "ms1 = ms2"
    using same dist o1 o2 by (rule sorted_distinct_unique)
  have dn: "migrateDown rt2 d xs w = migrateDown rt1 d ms1 w" if "mset xs = mset ms1" for xs
    unfolding migrateDown_def sort_Slice_descending_permuted[OF that dist s2 s1] by (rule refl)
  have dn': "migrateDown rt1 d ms1 w = migrateDown rt2 d ms2 w"
    using dn[of ms2] same by simp
  from eq dn dn' show ?thesis by blast
qed

theorem plan_deterministic_for_distinct_versions_witness:
  "loadMigrations sample_runtime sample_directory = Inr sample_migrations
   \<and> loadMigrations reversing_runtime shuffled_directory = Inr sample_migrations
   \<and> Glob shuffled_directory \<noteq> Glob sample_directory
   \<and> migrateUp sample_driver sample_migrations one_applied_world
       = migrateUp sample_driver (projr (loadMigrations reversing_runtime shuffled_directory))
           one_applied_world
   \<and> migrateDown reversing_runtime sample_driver (rev sample_migrations) one_applied_world
       = migrateDown sample_runtime sample_driver sample_migrations one_applied_world"
proof -
  have dist: "distinct (map Version sample_migrations)"
    by (simp add: sample_migrations_def)
  note H = plan_deterministic_for_distinct_versions[OF sample_load shuffled_load refl dist
      sample_runtime_sorts(1) sample_runtime_sorts(2), of "[]" sample_driver one_applied_world]
  have 1: "Glob shuffled_directory \<noteq> Glob sample_directory"
    by (simp add: shuffled_directory_def sample_directory_def)
  have 2: "migrateUp sample_driver sample_migrations one_applied_world
       = migrateUp sample_driver (projr (loadMigrations reversing_runtime shuffled_directory))
           one_applied_world"
    by (simp only: shuffled_load sum.sel)
  have "\<forall>xs. mset xs = mset sample_migrations \<longrightarrow>
          migrateDown reversing_runtime sample_driver xs one_applied_world
            = migrateDown sample_runtime sample_driver sample_migrations one_applied_world"
    by (rule H[THEN conjunct2, THEN conjunct2, THEN conjunct2, THEN conjunct2])
  then have 3: "migrateDown reversing_runtime sample_driver (rev sample_migrations) one_applied_world
       = migrateDown sample_runtime sample_driver sample_migrations one_applied_world"
    by (rule allE[where x = "rev sample_migrations"]) (simp only: mset_rev simp_thms)
  from sample_load shuffled_load 1 2 3 show ?thesis by (intro conjI)
qed

text \<open>
  C7, as stated, fails: the directory holds \<open>1_a.up.sql\<close> and \<open>1_b.up.sql\<close>, two
  migrations of version \<open>1\<close>. Ranging over the map in one order or the other, both
  rearrangements of its entries and under a \<open>sort.Slice\<close> that sorts, gives the two
  migrations in either order, sorting by version leaving equal versions as they come. The
  same migrations are discovered, but the plans differ, and so does what \<open>migrateUp\<close>
  then does to the same empty database: the first of the two is committed, the second
  rejected by the ledger.
\<close>

theorem plan_determinism_counterexample:
  "(\<forall>mf::migrationFiles. mset (range_order sample_runtime mf) = mset mf)
   \<and> (\<forall>mf::migrationFiles. mset (range_order reversing_runtime mf) = mset mf)
   \<and> sorts_by_version sample_runtime
   \<and> sorts_by_version reversing_runtime
   \<and> loadMigrations sample_runtime twin_directory = Inr [twin_a, twin_b]
   \<and> loadMigrations reversing_runtime twin_directory = Inr [twin_b, twin_a]
   \<and> mset [twin_a, twin_b] = mset [twin_b, twin_a]
   \<and> map ident (up_plan [] [twin_a, twin_b]) \<noteq> map ident (up_plan [] [twin_b, twin_a])
   \<and> schema (snd (migrateUp sample_driver [twin_a, twin_b] fresh_world)) = [''do m/1_a.up.sql'']
   \<and> schema (snd (migrateUp sample_driver [twin_b, twin_a] fresh_world)) = [''do m/1_b.up.sql'']"
proof -
  have m: "mset [twin_a, twin_b] = mset [twin_b, twin_a]" by simp
  show ?thesis
    by (intro conjI runtime_range_orders sample_runtime_sorts twin_loads m twin_runs(1,2)
          twin_plans_differ)
qed

text \<open>
  C8, as amended. When the directory can be made and the two files written, under a clock
  within the years 0 to 9999 and a \<open>Join\<close> that gives the two names different paths,
  \<open>createMigration\<close> succeeds and has written exactly two files, at the paths that \<open>Join\<close>
  gives in the migrations directory for \<open>timestamp_name.up.sql\<close> and
  \<open>timestamp_name.down.sql\<close>, every other path being as before. The timestamp is the
  same in both, fourteen decimal digits in the layout \<open>YYYYMMDDhhmmss\<close>. The two names
  sort next to each other: the down name is smaller than the up name and every string
  between them begins with \<open>timestamp_name.\<close>; and a name made at an earlier clock reading
  is smaller, as a string, than a name made at a later one, whatever follows the
  timestamps. The two files are not empty: each holds the comment header that the function
  writes.
\<close>

theorem createMigration_scaffolds_pair:
  assumes mk: "MkdirAll sys dir = None"
    and wu: "WriteFile sys (Join sys dir (up_file_name (Format_20060102150405 (Now sys)) name))
               = None"
    and wd: "WriteFile sys (Join sys dir (down_file_name (Format_20060102150405 (Now sys)) name))
               = None"
    and clk: "four_digit_clock (Now sys)"
    and two: "Join sys dir (up_file_name (Format_20060102150405 (Now sys)) name)
                \<noteq> Join sys dir (down_file_name (Format_20060102150405 (Now sys)) name)"
  shows "\<exists>ts dk'. ts = Format_20060102150405 (Now sys)
     \<and> createMigration sys dir name dk = (None, dk')
     \<and> length ts = 14 \<and> set ts \<subseteq> set ''0123456789''
     \<and> files dk' (Join sys dir (ts @ ''_'' @ name @ ''.up.sql'')) = Some (upContent ts name)
     \<and> files dk' (Join sys dir (ts @ ''_'' @ name @ ''.down.sql'')) = Some (downContent ts name)
     \<and> (\<forall>p. p \<noteq> Join sys dir (ts @ ''_'' @ name @ ''.up.sql'')
            \<and> p \<noteq> Join sys dir (ts @ ''_'' @ name @ ''.down.sql'') \<longrightarrow> files dk' p = files dk p)
     \<and> upContent ts name \<noteq> [] \<and> downContent ts name \<noteq> []
     \<and> ts @ ''_'' @ name @ ''.down.sql'' < ts @ ''_'' @ name @ ''.up.sql''
     \<and> (\<forall>s. ts @ ''_'' @ name @ ''.down.sql'' < s \<and> s < ts @ ''_'' @ name @ ''.up.sql''
            \<longrightarrow> prefix (ts @ ''_'' @ name @ ''.'') s)
     \<and> (\<forall>t u v. four_digit_clock t \<and> earlier (Now sys) t \<longrightarrow>
            ts @ u < Format_20060102150405 t @ v)"
proof -
  let ?ts = "Format_20060102150405 (Now sys)"
  let ?up = "Join sys dir (up_file_name ?ts name)"
  let ?down = "Join sys dir (down_file_name ?ts name)"
  let ?dk = "snd (createMigration sys dir name dk)"
  note run = createMigration_success[OF mk wu wd, of dk]
  have ok: "createMigration sys dir name dk = (None, ?dk)" unfolding run by simp
  have dk': "files ?dk = (files dk)(?up \<mapsto> upContent ?ts name, ?down \<mapsto> downContent ?ts name)"
    unfolding run by simp
  have 1: "files ?dk ?up = Some (upContent ?ts name)" using two by (simp add: dk')
  have 2: "files ?dk ?down = Some (downContent ?ts name)" by (simp add: dk')
  have 3: "\<forall>p. p \<noteq> ?up \<and> p \<noteq> ?down \<longrightarrow> files ?dk p = files dk p" by (simp add: dk')
  have 4: "upContent ?ts name \<noteq> []" "downContent ?ts name \<noteq> []"
    by (simp_all add: upContent_def downContent_def)
  have 5: "\<forall>t u v. four_digit_clock t \<and> earlier (Now sys) t \<longrightarrow> ?ts @ u < Format_20060102150405 t @ v"
    using Format_less[OF clk] by blast
  have 6: "\<forall>s. ?ts @ ''_'' @ name @ ''.down.sql'' < s \<and> s < ?ts @ ''_'' @ name @ ''.up.sql''
            \<longrightarrow> prefix (?ts @ ''_'' @ name @ ''.'') s"
    using pair_names(2) by blast
  show ?thesis
    apply (rule_tac x = ?ts in exI)
    apply (rule_tac x = ?dk in exI)
    using ok 1 2 3 4 5 6 pair_names(1)[of ?ts name] length_Format[OF clk] set_Format[OF clk]
    unfolding up_file_name_def down_file_name_def
    by (intro conjI refl)
qed

theorem createMigration_scaffolds_pair_witness:
  "\<exists>ts dk'. ts = ''20240102030405''
     \<and> createMigration sample_os ''m'' ''foo'' empty_disk = (None, dk')
     \<and> length ts = 14 \<and> set ts \<subseteq> set ''0123456789''
     \<and> files dk' (''m/'' @ ts @ ''_foo.up.sql'') = Some (upContent ts ''foo'')
     \<and> files dk' (''m/'' @ ts @ ''_foo.down.sql'') = Some (downContent ts ''foo'')
     \<and> ts @ ''_foo.down.sql'' < ts @ ''_foo.up.sql''"
proof -
  have mk: "MkdirAll sample_os ''m'' = None" by (simp add: sample_os_def)
  have w: "WriteFile sample_os p = None" for p by (simp add: sample_os_def)
  have two: "Join sample_os ''m'' (up_file_name (Format_20060102150405 (Now sample_os)) ''foo'')
                \<noteq> Join sample_os ''m'' (down_file_name (Format_20060102150405 (Now sample_os)) ''foo'')"
    by (simp add: sample_os_def up_file_name_def down_file_name_def)
  from createMigration_scaffolds_pair[OF mk w w sample_clock two, of empty_disk]
  obtain ts dk' where ts: "ts = Format_20060102150405 (Now sample_os)"
    "createMigration sample_os ''m'' ''foo'' empty_disk = (None, dk')"
    "length ts = 14" "set ts \<subseteq> set ''0123456789''"
    "files dk' (Join sample_os ''m'' (ts @ ''_'' @ ''foo'' @ ''.up.sql'')) = Some (upContent ts ''foo'')"
    "files dk' (Join sample_os ''m'' (ts @ ''_'' @ ''foo'' @ ''.down.sql'')) = Some (downContent ts ''foo'')"
    "ts @ ''_'' @ ''foo'' @ ''.down.sql'' < ts @ ''_'' @ ''foo'' @ ''.up.sql''"
    by (elim exE conjE)
  have j: "Join sample_os a b = a @ ''/'' @ b" for a b by (simp add: sample_os_def)
  from ts(5,6) have f: "files dk' (''m/'' @ ts @ ''_foo.up.sql'') = Some (upContent ts ''foo'')"
    "files dk' (''m/'' @ ts @ ''_foo.down.sql'') = Some (downContent ts ''foo'')"
    by (simp_all add: j)
  from ts(7) have o: "ts @ ''_foo.down.sql'' < ts @ ''_foo.up.sql''" by simp
  from ts(1)[unfolded sample_timestamp] ts(2,3,4) f o show ?thesis
    by (intro exI[of _ ts] exI[of _ dk'] conjI)
qed

text \<open>
  C8, as stated, fails in one word: the two files are not empty. At 2024-01-02 03:04:05,
  \<open>createMigration\<close> for the name \<open>foo\<close> succeeds and the up file holds three comment
  lines and an empty line, the down file two comment lines and an empty line. And the
  width of the timestamp is fixed only up to the year 9999: in the year 10000 it has
  fifteen digits and sorts before the timestamp of 2024.
\<close>

theorem scaffolded_files_empty_counterexample:
  "fst (createMigration sample_os ''m'' ''foo'' empty_disk) = None
   \<and> files (snd (createMigration sample_os ''m'' ''foo'' empty_disk))
        ''m/20240102030405_foo.up.sql''
      = Some (''-- Migration: foo'' @ [CHR 0x0A] @ ''-- Version: 20240102030405'' @ [CHR 0x0A]
              @ ''-- Description: foo'' @ [CHR 0x0A, CHR 0x0A])
   \<and> files (snd (createMigration sample_os ''m'' ''foo'' empty_disk))
        ''m/20240102030405_foo.down.sql''
      = Some (''-- Rollback: foo'' @ [CHR 0x0A] @ ''-- Version: 20240102030405''
              @ [CHR 0x0A, CHR 0x0A])
   \<and> files (snd (createMigration sample_os ''m'' ''foo'' empty_disk))
        ''m/20240102030405_foo.up.sql'' \<noteq> Some ''''
   \<and> files (snd (createMigration sample_os ''m'' ''foo'' empty_disk))
        ''m/20240102030405_foo.down.sql'' \<noteq> Some ''''
   \<and> Format_20060102150405 (Now late_os) = ''100000101000000''
   \<and> length (Format_20060102150405 (Now late_os)) = 15
   \<and> earlier (Now sample_os) (Now late_os)
   \<and> Format_20060102150405 (Now late_os) < Format_20060102150405 (Now sample_os)"
proof -
  have a: "fst (createMigration sample_os ''m'' ''foo'' empty_disk) = None
   \<and> files (snd (createMigration sample_os ''m'' ''foo'' empty_disk))
        ''m/20240102030405_foo.up.sql''
      = Some (''-- Migration: foo'' @ [CHR 0x0A] @ ''-- Version: 20240102030405'' @ [CHR 0x0A]
              @ ''-- Description: foo'' @ [CHR 0x0A, CHR 0x0A])
   \<and> files (snd (createMigration sample_os ''m'' ''foo'' empty_disk))
        ''m/20240102030405_foo.down.sql''
      = Some (''-- Rollback: foo'' @ [CHR 0x0A] @ ''-- Version: 20240102030405''
              @ [CHR 0x0A, CHR 0x0A])
   \<and> files (snd (createMigration sample_os ''m'' ''foo'' empty_disk))
        ''m/20240102030405_foo.up.sql'' \<noteq> Some ''''
   \<and> files (snd (createMigration sample_os ''m'' ''foo'' empty_disk))
        ''m/20240102030405_foo.down.sql'' \<noteq> Some ''''"
    by code_simp
  have b: "length (Format_20060102150405 (Now late_os)) = 15"
    unfolding late_timestamp by simp
  have c: "earlier (Now sample_os) (Now late_os)"
    by (simp add: earlier_def sample_os_def late_os_def)
  have d: "Format_20060102150405 (Now late_os) < Format_20060102150405 (Now sample_os)"
    unfolding late_timestamp sample_timestamp by (simp add: less_char_def)
  from a late_timestamp b c d show ?thesis by (elim conjE, intro conjI)
qed

text \<open>
  C10. For an id that is zero or negative as a signed 64-bit integer, \<open>GetUser\<close>,
  \<open>UpdateUser\<close> and \<open>DeleteUser\<close> return the error \<open>invalid user ID\<close> and leave the
  state as it was: the state behind the repository and the cache is untouched and no call
  on either is made, whatever the two collaborators are.
\<close>

theorem nonpositive_id_rejected:
  assumes "sint uid \<le> 0"
  shows "GetUser uc uid s = ((None, Some ''invalid user ID''), s)
       \<and> UpdateUser lib uc uid name email s = (Returns (None, Some ''invalid user ID''), s)
       \<and> DeleteUser uc uid s = (Some ''invalid user ID'', s)"
  using assms by (simp add: GetUser_def UpdateUser_def DeleteUser_def)

theorem nonpositive_id_rejected_witness:
  "GetUser sample_usecase (- 5) \<lparr>backend = (), accesses = []\<rparr>
       = ((None, Some ''invalid user ID''), \<lparr>backend = (), accesses = []\<rparr>)
   \<and> UpdateUser sample_strings sample_usecase (- 5) ''ann'' ''ann@example.org''
         \<lparr>backend = (), accesses = []\<rparr>
       = (Returns (None, Some ''invalid user ID''), \<lparr>backend = (), accesses = []\<rparr>)
   \<and> DeleteUser sample_usecase (- 5) \<lparr>backend = (), accesses = []\<rparr>
       = (Some ''invalid user ID'', \<lparr>backend = (), accesses = []\<rparr>)"
proof (rule nonpositive_id_rejected)
  show "sint (- 5 :: int64) \<le> 0" by simp
qed

end
